theory Spec2Isabelle
  imports Complex_Main "HOL-Library.Sublist"
begin

section \<open>Python values, failures and the outside world\<close>

text \<open>
  A Python call either returns or raises. Every modelled method returns
  \<open>exn + 'a\<close> (\<open>Inl\<close> the exception that leaves the call) together with the
  state it leaves behind. \<open>exn\<close> stands for instances of Python's \<open>Exception\<close>,
  which is what the clause \<^verbatim>\<open>except Exception\<close> of the source catches.
\<close>

datatype exn =
    ValueError | KeyError | AttributeError | TypeError | IndexError
  | ZeroDivisionError | OSError | PicklingError | UnpicklingError
  | OpenReviewException

datatype level = DEBUG | INFO | WARNING | ERROR

text \<open>
  The world the histogram generator acts on: the files on disk (path to
  contents), which paths cannot be opened for reading or for writing, the log
  records emitted so far (level and format string; arguments are not
  rendered), and the page requests received by the review API
  (invitation, limit, offset).
\<close>

record world =
  files :: "string \<Rightarrow> string option"
  read_denied :: "string \<Rightarrow> bool"
  write_denied :: "string \<Rightarrow> bool"
  log_records :: "(level \<times> string) list"
  requests :: "(string \<times> nat \<times> nat) list"

definition logging :: "level \<Rightarrow> string \<Rightarrow> world \<Rightarrow> world" where
  "logging lvl msg w = w\<lparr>log_records := log_records w @ [(lvl, msg)]\<rparr>"

text \<open>
  Library functions the source imports (\<^verbatim>\<open>hashlib\<close>, \<^verbatim>\<open>pickle\<close>, the builtins
  \<^verbatim>\<open>hash\<close> and \<^verbatim>\<open>int\<close>) are parameters; \<open>int_of_str\<close> yields \<open>None\<close> where
  \<^verbatim>\<open>int(s)\<close> raises ValueError. \<open>pickle_dump\<close> either yields the bytes written or
  raises after having written a prefix; \<open>pickle_load\<close> yields the stored
  object, where \<open>None\<close> is Python's \<^verbatim>\<open>None\<close>, or raises.
\<close>

record 'v stdlib =
  md5_hexdigest :: "string \<Rightarrow> string"
  pickle_dump :: "'v option \<Rightarrow> (exn \<times> string) + string"
  pickle_load :: "string \<Rightarrow> exn + 'v option"
  tuple_hash :: "int list \<Rightarrow> int"
  int_of_str :: "string \<Rightarrow> int option"

record generator =
  conference_id :: string
  use_cache :: bool
  refresh_cache :: bool
  cache_dir :: string

section \<open>The disk cache (histogram\_scores.py)\<close>

definition get_cache_path :: "generator \<Rightarrow> 'v stdlib \<Rightarrow> string \<Rightarrow> string" where
  "get_cache_path self lib cache_key =
     cache_dir self @ ''/'' @ md5_hexdigest lib cache_key @ ''.pkl''"

text \<open>\<^verbatim>\<open>with open(cache_path, 'rb') as f: return pickle.load(f)\<close>\<close>

definition open_rb :: "world \<Rightarrow> string \<Rightarrow> exn + string" where
  "open_rb w p =
     (case files w p of
        None \<Rightarrow> Inl OSError
      | Some b \<Rightarrow> if read_denied w p then Inl OSError else Inr b)"

definition read_pickle :: "'v stdlib \<Rightarrow> world \<Rightarrow> string \<Rightarrow> exn + 'v option" where
  "read_pickle lib w p =
     (case open_rb w p of Inl e \<Rightarrow> Inl e | Inr b \<Rightarrow> pickle_load lib b)"

text \<open>
  \<^verbatim>\<open>with open(cache_path, 'wb') as f: pickle.dump(data, f)\<close>. Opening for
  writing truncates the file, so a dump that raises leaves the prefix it wrote.
\<close>

definition write_pickle ::
  "'v stdlib \<Rightarrow> world \<Rightarrow> string \<Rightarrow> 'v option \<Rightarrow> (exn + unit) \<times> world" where
  "write_pickle lib w p data =
     (if write_denied w p then (Inl OSError, w)
      else case pickle_dump lib data of
             Inl (e, written) \<Rightarrow> (Inl e, w\<lparr>files := (files w)(p \<mapsto> written)\<rparr>)
           | Inr b \<Rightarrow> (Inr (), w\<lparr>files := (files w)(p \<mapsto> b)\<rparr>))"

definition load_cache ::
  "generator \<Rightarrow> 'v stdlib \<Rightarrow> string \<Rightarrow> world \<Rightarrow> (exn + 'v option) \<times> world" where
  "load_cache self lib cache_key w =
     (if \<not> use_cache self \<or> refresh_cache self then (Inr None, w)
      else
        let cache_path = get_cache_path self lib cache_key in
        if files w cache_path \<noteq> None then
          (let w1 = logging INFO ''Loading data from cache: %s'' w in
           case read_pickle lib w1 cache_path of
             Inr data \<Rightarrow> (Inr data, w1)
           | Inl e \<Rightarrow> (Inr None, logging WARNING ''Failed to load cache: %s'' w1))
        else (Inr None, w))"

definition save_cache ::
  "generator \<Rightarrow> 'v stdlib \<Rightarrow> string \<Rightarrow> 'v option \<Rightarrow> world \<Rightarrow> (exn + unit) \<times> world" where
  "save_cache self lib cache_key data w =
     (if \<not> use_cache self then (Inr (), w)
      else
        let cache_path = get_cache_path self lib cache_key;
            w1 = logging INFO ''Saving data to cache: %s'' w
        in case write_pickle lib w1 cache_path data of
             (Inr u, w2) \<Rightarrow> (Inr (), w2)
           | (Inl e, w2) \<Rightarrow> (Inr (), logging WARNING ''Failed to save cache: %s'' w2))"

section \<open>The spreadsheet with a header row (utils/gsheet.py)\<close>

text \<open>
  The object state of \<^verbatim>\<open>GSheetWithHeader\<close>: the local snapshot of the sheet
  (rows of cell strings, as the spreadsheet client returns them), the
  attribute \<^verbatim>\<open>_headers\<close>, the cell updates staged for the next push, and the
  log records emitted (level and the constant part of the message). The decorator \<^verbatim>\<open>batch_sync_with_remote\<close> pulls the
  snapshot before the method body and pushes the staged updates after it; the
  definitions below are the method bodies, run on the pulled snapshot.
\<close>

record sheet =
  local_sheet_values :: "string list list"
  headers_attr :: "string list option"
  cell_buffer :: "(nat \<times> nat \<times> string) list"
  sheet_log :: "(level \<times> string) list"

definition sheet_logging :: "level \<Rightarrow> string \<Rightarrow> sheet \<Rightarrow> sheet" where
  "sheet_logging lvl msg self = self\<lparr>sheet_log := sheet_log self @ [(lvl, msg)]\<rparr>"

text \<open>
  Modelled from the spec: the base class \<^verbatim>\<open>GSheetManager\<close> (package
  \<^verbatim>\<open>gsheet_manager\<close>) is not part of the sources; its \<^verbatim>\<open>_set_buffer_cells\<close>
  "stages cell updates in an in-memory buffer, which is flushed to the remote
  sheet once per decorated operation".
\<close>

definition set_buffer_cells :: "nat \<Rightarrow> nat \<Rightarrow> string \<Rightarrow> sheet \<Rightarrow> sheet" where
  "set_buffer_cells python_row_idx python_col_idx v self =
     self\<lparr>cell_buffer := cell_buffer self @ [(python_row_idx, python_col_idx, v)]\<rparr>"

text \<open>The property \<^verbatim>\<open>headers\<close>: it memoises the first row of the snapshot.\<close>

definition headers :: "sheet \<Rightarrow> string list option \<times> sheet" where
  "headers self =
     (if headers_attr self = None \<and> local_sheet_values self \<noteq> []
      then (Some (hd (local_sheet_values self)),
            self\<lparr>headers_attr := Some (hd (local_sheet_values self))\<rparr>)
      else (headers_attr self, self))"

text \<open>\<^verbatim>\<open>xs[i] = v\<close> raises IndexError out of range; \<^verbatim>\<open>xs.index(v)\<close> raises
  ValueError (here \<open>None\<close>) when \<open>v\<close> does not occur.\<close>

definition list_assign :: "'a list \<Rightarrow> nat \<Rightarrow> 'a \<Rightarrow> exn + 'a list" where
  "list_assign xs i v = (if i < length xs then Inr (xs[i := v]) else Inl IndexError)"

fun list_index :: "'a list \<Rightarrow> 'a \<Rightarrow> nat option" where
  "list_index [] v = None"
| "list_index (x # xs) v = (if x = v then Some 0 else map_option Suc (list_index xs v))"

text \<open>\<^verbatim>\<open>for header_idx, header_name in enumerate(self.headers):
    _headers[header_idx] = header_name\<close>\<close>

fun copy_existing :: "string list \<Rightarrow> nat \<Rightarrow> string option list \<Rightarrow> exn + string option list" where
  "copy_existing [] header_idx hs = Inr hs"
| "copy_existing (header_name # rest) header_idx hs =
     (case list_assign hs header_idx (Some header_name) of
        Inl e \<Rightarrow> Inl e
      | Inr hs' \<Rightarrow> copy_existing rest (Suc header_idx) hs')"

text \<open>\<^verbatim>\<open>self.headers if self.headers else []\<close>\<close>

definition header_list :: "string list option \<Rightarrow> string list" where
  "header_list existing = (case existing of None \<Rightarrow> [] | Some e \<Rightarrow> e)"

text \<open>
  The second loop of \<^verbatim>\<open>_write_headers\<close>, over \<^verbatim>\<open>enumerate(headers)\<close>. It
  carries \<^verbatim>\<open>_headers\<close>, \<^verbatim>\<open>current_header_idx\<close> and the object state;
  \<open>existing\<close> is the value of \<^verbatim>\<open>self.headers\<close>, which the loop does not change.
\<close>

fun write_loop ::
  "bool \<Rightarrow> nat \<Rightarrow> string list option \<Rightarrow> (nat \<times> string) list \<Rightarrow> string option list \<Rightarrow> nat
     \<Rightarrow> sheet \<Rightarrow> (exn + string option list \<times> nat) \<times> sheet" where
  "write_loop overwrite start_row_idx existing [] hs current_header_idx self =
     (Inr (hs, current_header_idx), self)"
| "write_loop overwrite start_row_idx existing ((header_idx, header_name) # rest) hs
       current_header_idx self =
     (if overwrite then
        (let self1 = set_buffer_cells start_row_idx header_idx header_name self in
         case list_assign hs header_idx (Some header_name) of
           Inl e \<Rightarrow> (Inl e, self1)
         | Inr hs' \<Rightarrow>
             write_loop overwrite start_row_idx existing rest hs' current_header_idx self1)
      else if header_list existing \<noteq> [] \<and> header_name \<in> set (header_list existing) then
        (case list_index (header_list existing) header_name of
           None \<Rightarrow> (Inl ValueError, self)
         | Some header_original_idx \<Rightarrow>
             (case list_assign hs header_original_idx (Some header_name) of
                Inl e \<Rightarrow> (Inl e, self)
              | Inr hs' \<Rightarrow>
                  write_loop overwrite start_row_idx existing rest hs' current_header_idx self))
      else
        (let self1 = set_buffer_cells start_row_idx current_header_idx header_name self in
         case list_assign hs current_header_idx (Some header_name) of
           Inl e \<Rightarrow> (Inl e, self1)
         | Inr hs' \<Rightarrow>
             write_loop overwrite start_row_idx existing rest hs'
               (Suc current_header_idx) self1))"

text \<open>
  \<^verbatim>\<open>_write_headers(headers, start_row_idx, overwrite)\<close> returns
  \<^verbatim>\<open>(current_row_idx, headers)\<close>. Without overwrite the first loop iterates
  \<^verbatim>\<open>self.headers\<close>, which raises TypeError when that is \<^verbatim>\<open>None\<close>.
\<close>

definition write_headers ::
  "string list \<Rightarrow> nat \<Rightarrow> bool \<Rightarrow> sheet \<Rightarrow> (exn + nat \<times> string option list) \<times> sheet" where
  "write_headers hdrs start_row_idx overwrite self0 =
     (let (existing, self) = headers self0;
          current_row_idx = start_row_idx;
          current_header_idx = length (header_list existing);
          init =
            (if overwrite then Inr (replicate (length hdrs) None)
             else case existing of
                    None \<Rightarrow> Inl TypeError
                  | Some e \<Rightarrow>
                      copy_existing e 0
                        (replicate (card (set hdrs \<union> set (header_list existing))) None))
      in case init of
           Inl e \<Rightarrow> (Inl e, self)
         | Inr hs \<Rightarrow>
             (case write_loop overwrite start_row_idx existing (enumerate 0 hdrs) hs
                     current_header_idx self of
                (Inl e, self1) \<Rightarrow> (Inl e, self1)
              | (Inr (hs', idx), self1) \<Rightarrow>
                  (Inr (current_row_idx + 1, hs'),
                   sheet_logging DEBUG ''Headers written starting at row'' self1)))"

text \<open>
  \<^verbatim>\<open>all(row[self.headers.index(k)] == v for k, v in where_.items())\<close>:
  evaluated left to right, stopping at the first condition that fails. A
  dictionary is the list of its items in insertion order.
\<close>

fun all_conditions ::
  "(string \<times> string) list \<Rightarrow> string list \<Rightarrow> sheet \<Rightarrow> (exn + bool) \<times> sheet" where
  "all_conditions [] row self = (Inr True, self)"
| "all_conditions ((k, v) # rest) row self =
     (case headers self of
        (None, self1) \<Rightarrow> (Inl AttributeError, self1)
      | (Some hs, self1) \<Rightarrow>
          (case list_index hs k of
             None \<Rightarrow> (Inl ValueError, self1)
           | Some i \<Rightarrow>
               if i < length row
               then (if row ! i = v then all_conditions rest row self1 else (Inr False, self1))
               else (Inl IndexError, self1)))"

text \<open>\<^verbatim>\<open>next(i for i, row in enumerate(self.local_sheet_values) if all(...))\<close>;
  \<open>Inr None\<close> is StopIteration, the only exception the caller catches.\<close>

fun find_row ::
  "(string \<times> string) list \<Rightarrow> (nat \<times> string list) list \<Rightarrow> sheet
     \<Rightarrow> (exn + nat option) \<times> sheet" where
  "find_row where_item [] self = (Inr None, self)"
| "find_row where_item ((i, row) # rest) self =
     (case all_conditions where_item row self of
        (Inl e, self1) \<Rightarrow> (Inl e, self1)
      | (Inr matched, self1) \<Rightarrow>
          if matched then (Inr (Some i), self1) else find_row where_item rest self1)"

text \<open>The inner loop of \<^verbatim>\<open>write_cells\<close>, over \<^verbatim>\<open>what_.items()\<close>.\<close>

fun update_cells ::
  "bool \<Rightarrow> nat \<Rightarrow> (string \<times> string) list \<Rightarrow> nat \<Rightarrow> sheet \<Rightarrow> (exn + nat) \<times> sheet" where
  "update_cells overwrite python_row_idx [] updates_count self = (Inr updates_count, self)"
| "update_cells overwrite python_row_idx ((col_header, v) # rest) updates_count self =
     (case headers self of
        (None, self1) \<Rightarrow> (Inl AttributeError, self1)
      | (Some hs, self1) \<Rightarrow>
          (case list_index hs col_header of
             None \<Rightarrow>
               update_cells overwrite python_row_idx rest updates_count
                 (sheet_logging WARNING ''Column header not found in headers'' self1)
           | Some python_col_idx \<Rightarrow>
               if python_row_idx < length (local_sheet_values self1) \<and>
                  python_col_idx < length (local_sheet_values self1 ! python_row_idx)
               then
                 (let current_value =
                        local_sheet_values self1 ! python_row_idx ! python_col_idx
                  in
                  if current_value \<noteq> [] \<and> current_value \<noteq> v \<and> \<not> overwrite then
                    update_cells overwrite python_row_idx rest updates_count
                      (sheet_logging WARNING ''Skipping non-empty cell'' self1)
                  else
                    (let self2 =
                           (if current_value \<noteq> [] \<and> current_value \<noteq> v \<and> overwrite
                            then sheet_logging INFO ''Overwriting cell'' self1
                            else self1)
                     in update_cells overwrite python_row_idx rest (updates_count + 1)
                          (set_buffer_cells python_row_idx python_col_idx v self2)))
               else (Inl IndexError, self1)))"

text \<open>The outer loop of \<^verbatim>\<open>write_cells\<close>, over \<^verbatim>\<open>zip(where, what)\<close>.\<close>

fun write_pairs ::
  "bool \<Rightarrow> ((string \<times> string) list \<times> (string \<times> string) list) list \<Rightarrow> nat \<Rightarrow> sheet
     \<Rightarrow> (exn + nat) \<times> sheet" where
  "write_pairs overwrite [] updates_count self = (Inr updates_count, self)"
| "write_pairs overwrite ((where_item, what_item) # rest) updates_count self =
     (case find_row where_item (enumerate 0 (local_sheet_values self)) self of
        (Inl e, self1) \<Rightarrow> (Inl e, self1)
      | (Inr None, self1) \<Rightarrow>
          write_pairs overwrite rest updates_count
            (sheet_logging WARNING ''No matching row found for conditions'' self1)
      | (Inr (Some python_row_idx), self1) \<Rightarrow>
          (case update_cells overwrite python_row_idx what_item updates_count self1 of
             (Inl e, self2) \<Rightarrow> (Inl e, self2)
           | (Inr n, self2) \<Rightarrow> write_pairs overwrite rest n self2))"

definition write_cells ::
  "(string \<times> string) list list \<Rightarrow> (string \<times> string) list list \<Rightarrow> bool \<Rightarrow> sheet
     \<Rightarrow> (exn + unit) \<times> sheet" where
  "write_cells where_arg what_arg overwrite self =
     (case write_pairs overwrite (zip where_arg what_arg) 0 self of
        (Inl e, self1) \<Rightarrow> (Inl e, self1)
      | (Inr n, self1) \<Rightarrow> (Inr (), sheet_logging INFO ''Updated %d cells in the sheet'' self1))"

section \<open>Strings\<close>

text \<open>
  \<^verbatim>\<open>a in b\<close> on strings is \<^const>\<open>sublist\<close> (a contiguous occurrence) and
  \<^verbatim>\<open>b.endswith(a)\<close> is \<^const>\<open>suffix\<close>. \<^verbatim>\<open>s.split(sep)\<close> cuts at the
  non-overlapping occurrences of \<open>sep\<close> from the left; the source calls it
  with the non-empty separators \<^verbatim>\<open>'/Submission'\<close> and \<^verbatim>\<open>'/'\<close> only (Python
  raises ValueError on an empty one). At an occurrence the scan skips
  \<open>length sep\<close> characters, the first of which is \<open>c\<close>.
\<close>

fun split_on :: "string \<Rightarrow> string \<Rightarrow> string list" where
  "split_on sep [] = [[]]"
| "split_on sep (c # cs) =
     (if sep \<noteq> [] \<and> prefix sep (c # cs) then [] # split_on sep (drop (length sep - 1) cs)
      else (case split_on sep cs of [] \<Rightarrow> [[c]] | p # ps \<Rightarrow> (c # p) # ps))"

text \<open>\<^verbatim>\<open>str(n)\<close> for an integer: its decimal digits.\<close>

fun str_nat :: "nat \<Rightarrow> string" where
  "str_nat n =
     (if n < 10 then [char_of (48 + n)] else str_nat (n div 10) @ [char_of (48 + n mod 10)])"

definition str_int :: "int \<Rightarrow> string" where
  "str_int i = (if i < 0 then CHR ''-'' # str_nat (nat (- i)) else str_nat (nat i))"

text \<open>
  \<open>decimal_int\<close> is the value of \<^verbatim>\<open>int(s)\<close> on plain decimal digit strings; it
  instantiates \<open>int_of_str\<close> when the model is run on examples.
\<close>

fun digits_value :: "string \<Rightarrow> nat \<Rightarrow> nat option" where
  "digits_value [] acc = Some acc"
| "digits_value (c # cs) acc =
     (if (48::nat) \<le> of_char c \<and> of_char c \<le> (57::nat)
      then digits_value cs (10 * acc + (of_char c - 48))
      else None)"

definition decimal_int :: "string \<Rightarrow> int option" where
  "decimal_int s = (if s = [] then None else map_option int (digits_value s 0))"

section \<open>The review API client and the records it serves\<close>

record submission =
  number :: int
  forum :: string
  readers :: "string list"
  venue :: "string option"

record forum_note =
  invitations :: "string list"
  content :: "(string \<times> string) list"

text \<open>
  The review API is an external service. The client is a stub over fixed
  data: the notes posted under each invitation in the server's order, served
  in pages; the notes of each forum; group membership; the profile of the
  authenticated user. \<open>page_error\<close> and \<open>number_error\<close> make a request
  raise, for the calls the source guards with \<^verbatim>\<open>try\<close>.
\<close>

record client =
  profile_id :: string
  group_members :: "string \<Rightarrow> string list"
  member_groups :: "string \<Rightarrow> string list"
  invitation_notes :: "string \<Rightarrow> submission list"
  forum_notes :: "string \<Rightarrow> forum_note list"
  page_error :: "nat \<Rightarrow> exn option"
  number_error :: "int \<Rightarrow> exn option"

text \<open>\<^verbatim>\<open>get_notes(invitation=..., details='replicated', limit=..., offset=...)\<close>\<close>

definition get_notes_page ::
  "client \<Rightarrow> string \<Rightarrow> nat \<Rightarrow> nat \<Rightarrow> world \<Rightarrow> (exn + submission list) \<times> world" where
  "get_notes_page c invitation limit offset w =
     (let w1 = w\<lparr>requests := requests w @ [(invitation, limit, offset)]\<rparr> in
      case page_error c offset of
        Some e \<Rightarrow> (Inl e, w1)
      | None \<Rightarrow> (Inr (take limit (drop offset (invitation_notes c invitation))), w1))"

text \<open>\<^verbatim>\<open>get_notes(invitation=..., details='replicated', number=...)\<close>\<close>

definition get_notes_number :: "client \<Rightarrow> string \<Rightarrow> int \<Rightarrow> exn + submission list" where
  "get_notes_number c invitation n =
     (case number_error c n of
        Some e \<Rightarrow> Inl e
      | None \<Rightarrow> Inr (filter (\<lambda>s. number s = n) (invitation_notes c invitation)))"

section \<open>Paginated retrieval\<close>

text \<open>
  The \<^verbatim>\<open>while True\<close> loop of \<^verbatim>\<open>get_all_submissions\<close>
  (histogram\_scores.py); an exception of the request leaves the method.
\<close>

function fetch_pages ::
  "client \<Rightarrow> string \<Rightarrow> nat \<Rightarrow> nat \<Rightarrow> submission list \<Rightarrow> world
     \<Rightarrow> (exn + submission list) \<times> world" where
  "fetch_pages c invitation batch_size offset all_submissions w =
     (case get_notes_page c invitation batch_size offset w of
        (Inl e, w1) \<Rightarrow> (Inl e, w1)
      | (Inr submissions_batch, w1) \<Rightarrow>
          if submissions_batch = [] then (Inr all_submissions, w1)
          else if length submissions_batch < batch_size
          then (Inr (all_submissions @ submissions_batch),
                logging INFO ''Retrieved %d submissions (total: %d)'' w1)
          else fetch_pages c invitation batch_size (offset + batch_size)
                 (all_submissions @ submissions_batch)
                 (logging INFO ''Retrieved %d submissions (total: %d)'' w1))"
  by pat_completeness auto
termination
proof (relation "measure (\<lambda>(c, invitation, batch_size, offset, all_submissions, w).
                    length (invitation_notes c invitation) - offset)", goal_cases)
  case 1
  show ?case by simp
next
  case (2 c invitation batch_size offset all_submissions w x1 w1 submissions_batch)
  then have b: "submissions_batch = take batch_size (drop offset (invitation_notes c invitation))"
    by (auto simp: get_notes_page_def Let_def split: option.splits)
  from 2 b have "0 < batch_size" and "offset < length (invitation_notes c invitation)"
    by (auto intro: Nat.gr0I)
  then show ?case by simp
qed

text \<open>
  The same loop in \<^verbatim>\<open>get_author_papers_list\<close> (list\_author\_papers.py), where
  an exception of the request is logged and ends the loop.
\<close>

function fetch_pages_author ::
  "client \<Rightarrow> string \<Rightarrow> nat \<Rightarrow> nat \<Rightarrow> submission list \<Rightarrow> world \<Rightarrow> submission list \<times> world" where
  "fetch_pages_author c invitation batch_size offset all_submissions w =
     (case get_notes_page c invitation batch_size offset w of
        (Inl e, w1) \<Rightarrow>
          (all_submissions,
           logging ERROR ''Error retrieving submissions batch at offset %d: %s'' w1)
      | (Inr submissions_batch, w1) \<Rightarrow>
          if submissions_batch = [] then (all_submissions, w1)
          else if length submissions_batch < batch_size
          then (all_submissions @ submissions_batch,
                logging INFO ''Retrieved %d submissions (total: %d)'' w1)
          else fetch_pages_author c invitation batch_size (offset + batch_size)
                 (all_submissions @ submissions_batch)
                 (logging INFO ''Retrieved %d submissions (total: %d)'' w1))"
  by pat_completeness auto
termination
proof (relation "measure (\<lambda>(c, invitation, batch_size, offset, all_submissions, w).
                    length (invitation_notes c invitation) - offset)", goal_cases)
  case 1
  show ?case by simp
next
  case (2 c invitation batch_size offset all_submissions w x1 w1 submissions_batch)
  then have b: "submissions_batch = take batch_size (drop offset (invitation_notes c invitation))"
    by (auto simp: get_notes_page_def Let_def split: option.splits)
  from 2 b have "0 < batch_size" and "offset < length (invitation_notes c invitation)"
    by (auto intro: Nat.gr0I)
  then show ?case by simp
qed

definition get_all_submissions ::
  "generator \<Rightarrow> submission list stdlib \<Rightarrow> client \<Rightarrow> world
     \<Rightarrow> (exn + submission list) \<times> world" where
  "get_all_submissions self lib c w =
     (let cache_key = ''all_submissions_'' @ conference_id self in
      case load_cache self lib cache_key w of
        (Inl e, w1) \<Rightarrow> (Inl e, w1)
      | (Inr (Some cached_data), w1) \<Rightarrow>
          (Inr cached_data, logging INFO ''Loaded %d submissions from cache'' w1)
      | (Inr None, w1) \<Rightarrow>
          (case fetch_pages c (conference_id self @ ''/-/Submission'') 1000 0 []
                  (logging INFO ''Retrieving all submissions for %s'' w1) of
             (Inl e, w2) \<Rightarrow> (Inl e, w2)
           | (Inr all_submissions, w2) \<Rightarrow>
               (case save_cache self lib cache_key (Some all_submissions)
                       (logging INFO ''Found %d total submissions'' w2) of
                  (Inl e, w3) \<Rightarrow> (Inl e, w3)
                | (Inr u, w3) \<Rightarrow> (Inr all_submissions, w3))))"

section \<open>Area-chair assignment resolution (histogram\_scores.py)\<close>

text \<open>
  The loop over \<^verbatim>\<open>ac_groups\<close>, carrying \<^verbatim>\<open>assigned_paper_numbers\<close>,
  \<^verbatim>\<open>specific_ac_groups\<close> and \<^verbatim>\<open>pool_ac_groups\<close>. \<^verbatim>\<open>split('/')\<close> never
  returns an empty list, so its element 0 is \<^const>\<open>hd\<close>.
\<close>

fun classify_groups ::
  "'v stdlib \<Rightarrow> string \<Rightarrow> string list \<Rightarrow> int set \<times> string list \<times> string list
     \<Rightarrow> int set \<times> string list \<times> string list" where
  "classify_groups lib conf [] acc = acc"
| "classify_groups lib conf (ac_group # rest)
       (assigned_paper_numbers, specific_ac_groups, pool_ac_groups) =
     (if sublist conf ac_group \<and> sublist ''/Submission'' ac_group \<and>
         sublist ''/Area_Chair_'' ac_group
      then
        (let parts = split_on ''/Submission'' ac_group in
         if length parts > 1 then
           (case int_of_str lib (hd (split_on ''/'' (parts ! 1))) of
              Some n \<Rightarrow>
                classify_groups lib conf rest
                  (insert n assigned_paper_numbers, specific_ac_groups @ [ac_group],
                   pool_ac_groups)
            | None \<Rightarrow>
                classify_groups lib conf rest
                  (assigned_paper_numbers, specific_ac_groups @ [ac_group], pool_ac_groups))
         else
           classify_groups lib conf rest
             (assigned_paper_numbers, specific_ac_groups @ [ac_group], pool_ac_groups))
      else if sublist conf ac_group \<and> sublist ''/Submission'' ac_group \<and>
              suffix ''/Area_Chairs'' ac_group
      then
        classify_groups lib conf rest
          (assigned_paper_numbers, specific_ac_groups, pool_ac_groups @ [ac_group])
      else
        classify_groups lib conf rest
          (assigned_paper_numbers, specific_ac_groups, pool_ac_groups))"

text \<open>
  Strategy (a): the loop over \<^verbatim>\<open>sorted_paper_nums\<close>, fetching each assigned
  paper by number; ValueError, KeyError and AttributeError are logged, any
  other exception leaves the method.
\<close>

fun fetch_assigned ::
  "client \<Rightarrow> string \<Rightarrow> int list \<Rightarrow> submission list \<Rightarrow> world
     \<Rightarrow> (exn + submission list) \<times> world" where
  "fetch_assigned c invitation [] submissions w = (Inr submissions, w)"
| "fetch_assigned c invitation (paper_num # rest) submissions w =
     (case get_notes_number c invitation paper_num of
        Inr paper_notes \<Rightarrow>
          fetch_assigned c invitation rest
            (if paper_notes \<noteq> [] then submissions @ paper_notes else submissions) w
      | Inl e \<Rightarrow>
          if e = ValueError \<or> e = KeyError \<or> e = AttributeError
          then fetch_assigned c invitation rest submissions
                 (logging WARNING ''Failed to retrieve paper %d: %s'' w)
          else (Inl e, w))"

definition specific_assignment ::
  "generator \<Rightarrow> client \<Rightarrow> int set \<Rightarrow> world \<Rightarrow> (exn + submission list) \<times> world" where
  "specific_assignment self c assigned_paper_numbers w =
     (case fetch_assigned c (conference_id self @ ''/-/Submission'')
             (sorted_list_of_set assigned_paper_numbers) []
             (logging INFO ''Found %d specific AC assignment groups'' w) of
        (Inl e, w1) \<Rightarrow> (Inl e, w1)
      | (Inr submissions, w1) \<Rightarrow>
          (Inr submissions, logging INFO ''Retrieved %d assigned submissions'' w1))"

text \<open>
  Strategy (b): all submissions, kept when the paper's own
  \<^verbatim>\<open>.../Submission{number}/Area_Chairs\<close> group and one of the user's pool
  groups are among the paper's readers.
\<close>

definition pool_fallback ::
  "generator \<Rightarrow> submission list stdlib \<Rightarrow> client \<Rightarrow> string list \<Rightarrow> world
     \<Rightarrow> (exn + submission list) \<times> world" where
  "pool_fallback self lib c pool_ac_groups w =
     (case get_all_submissions self lib c
             (logging INFO ''Using paper.readers method (legacy)'' w) of
        (Inl e, w1) \<Rightarrow> (Inl e, w1)
      | (Inr all_submissions, w1) \<Rightarrow>
          (Inr (filter
                  (\<lambda>paper.
                     (conference_id self @ ''/Submission'' @ str_int (number paper) @
                        ''/Area_Chairs'') \<in> set (readers paper) \<and>
                     (\<exists>ac_group \<in> set pool_ac_groups. ac_group \<in> set (readers paper)))
                  all_submissions),
           logging INFO ''Found %d AC-assigned submissions'' w1))"

text \<open>
  \<^verbatim>\<open>get_ac_assigned_submissions\<close> from \<^verbatim>\<open>user_id = profile.id\<close> to the
  end of the \<^verbatim>\<open>if use_specific_assignment\<close> statement.
\<close>

definition resolve_assignments ::
  "generator \<Rightarrow> submission list stdlib \<Rightarrow> client \<Rightarrow> world
     \<Rightarrow> (exn + submission list) \<times> world" where
  "resolve_assignments self lib c w =
     (let user_id = profile_id c;
          w1 = logging INFO ''Getting groups for user %s'' w;
          user_groups = member_groups c user_id;
          ac_groups = filter (\<lambda>g. sublist ''Area_Chair'' g) user_groups;
          w2 = logging INFO ''Found %d AC groups for user'' w1;
          (assigned_paper_numbers, specific_ac_groups, pool_ac_groups) =
            classify_groups lib (conference_id self) ac_groups ({}, [], []);
          use_specific_assignment = (length specific_ac_groups > 0)
      in if use_specific_assignment
         then specific_assignment self c assigned_paper_numbers w2
         else pool_fallback self lib c pool_ac_groups w2)"

definition get_ac_assigned_submissions ::
  "generator \<Rightarrow> submission list stdlib \<Rightarrow> client \<Rightarrow> world
     \<Rightarrow> (exn + submission list) \<times> world" where
  "get_ac_assigned_submissions self lib c w =
     (let cache_key = ''ac_submissions_'' @ conference_id self @ ''_'' @ profile_id c in
      case load_cache self lib cache_key w of
        (Inl e, w1) \<Rightarrow> (Inl e, w1)
      | (Inr (Some cached_data), w1) \<Rightarrow>
          (Inr cached_data, logging INFO ''Loaded %d AC-assigned submissions from cache'' w1)
      | (Inr None, w1) \<Rightarrow>
          (let w2 = logging INFO ''Retrieving AC-assigned submissions'' w1;
               ac_group_list = group_members c (conference_id self @ ''/Area_Chairs'')
           in
           if ac_group_list = [] then
             (Inr [], logging WARNING ''No AC information for %s.'' w2)
           else if profile_id c \<notin> set ac_group_list then
             (Inr [], logging WARNING ''You are not an area chair for %s.'' w2)
           else
             (case resolve_assignments self lib c w2 of
                (Inl e, w3) \<Rightarrow> (Inl e, w3)
              | (Inr submissions, w3) \<Rightarrow>
                  (case save_cache self lib cache_key (Some submissions) w3 of
                     (Inl e, w4) \<Rightarrow> (Inl e, w4)
                   | (Inr u, w4) \<Rightarrow> (Inr submissions, w4)))))"

section \<open>Score extraction (histogram\_scores.py)\<close>

text \<open>
  Scores are real numbers: the model computes with exact arithmetic, not with
  binary floating point. \<^verbatim>\<open>CONFERENCE_INFO\<close> comes from the configuration
  module, which is not part of the sources; its two optional extractors are
  parameters, each mapping a review to a number or to \<^verbatim>\<open>None\<close>.
\<close>

record conference_info =
  RATING_EXTRACTOR :: "(forum_note \<Rightarrow> real option) option"
  FINAL_RATING_EXTRACTOR :: "(forum_note \<Rightarrow> real option) option"

text \<open>\<^verbatim>\<open>a / b\<close> raises ZeroDivisionError when \<open>b\<close> is zero.\<close>

definition py_div :: "real \<Rightarrow> real \<Rightarrow> exn + real" where
  "py_div a b = (if b = 0 then Inl ZeroDivisionError else Inr (a / b))"

text \<open>
  The \<^verbatim>\<open>if score_type == ...\<close> statement of the loop body: the extracted
  scores without the \<^verbatim>\<open>None\<close>s, \<open>Inr None\<close> where the extractor is not
  configured (the paper is skipped), ValueError for an unknown score type.
\<close>

definition paper_scores ::
  "conference_info \<Rightarrow> string \<Rightarrow> forum_note list \<Rightarrow> exn + real list option" where
  "paper_scores info score_type reviews =
     (if score_type = ''initial'' then
        (case RATING_EXTRACTOR info of
           None \<Rightarrow> Inr None
         | Some extractor \<Rightarrow> Inr (Some (List.map_filter extractor reviews)))
      else if score_type = ''final'' then
        (case FINAL_RATING_EXTRACTOR info of
           None \<Rightarrow> Inr None
         | Some extractor \<Rightarrow> Inr (Some (List.map_filter extractor reviews)))
      else Inl ValueError)"

text \<open>The \<^verbatim>\<open>for paper in submissions\<close> loop of \<^verbatim>\<open>extract_average_scores\<close>.\<close>

fun extract_loop ::
  "generator \<Rightarrow> client \<Rightarrow> conference_info \<Rightarrow> string \<Rightarrow> bool \<Rightarrow> submission list \<Rightarrow> real list
     \<Rightarrow> world \<Rightarrow> (exn + real list) \<times> world" where
  "extract_loop self c info score_type exclude_withdrawn [] avg_scores w = (Inr avg_scores, w)"
| "extract_loop self c info score_type exclude_withdrawn (paper # rest) avg_scores w =
     (if exclude_withdrawn \<and>
         sublist ''Withdrawn'' (case venue paper of None \<Rightarrow> [] | Some v \<Rightarrow> v)
      then extract_loop self c info score_type exclude_withdrawn rest avg_scores
             (logging DEBUG ''Skipping withdrawn paper %d'' w)
      else
        (let all_notes = forum_notes c (forum paper);
             invitation_str =
               conference_id self @ ''/Submission'' @ str_int (number paper) @
                 ''/-/Official_Review'';
             reviews = filter (\<lambda>n. invitation_str \<in> set (invitations n)) all_notes
         in
         if reviews = [] then
           extract_loop self c info score_type exclude_withdrawn rest avg_scores
             (logging DEBUG ''Paper %d has no reviews'' w)
         else
           (case paper_scores info score_type reviews of
              Inl e \<Rightarrow> (Inl e, w)
            | Inr None \<Rightarrow>
                extract_loop self c info score_type exclude_withdrawn rest avg_scores
                  (logging WARNING
                     (if score_type = ''initial'' then ''RATING_EXTRACTOR not defined for %s''
                      else ''FINAL_RATING_EXTRACTOR not defined for %s'') w)
            | Inr (Some scores) \<Rightarrow>
                if scores = [] then
                  extract_loop self c info score_type exclude_withdrawn rest avg_scores
                    (logging DEBUG ''Paper %d has no valid scores'' w)
                else
                  (case py_div (sum_list scores) (real (length scores)) of
                     Inl e \<Rightarrow> (Inl e, w)
                   | Inr avg_score \<Rightarrow>
                       extract_loop self c info score_type exclude_withdrawn rest
                         (avg_scores @ [avg_score]) w))))"

definition extract_average_scores ::
  "generator \<Rightarrow> real list stdlib \<Rightarrow> client \<Rightarrow> conference_info \<Rightarrow> submission list \<Rightarrow> string
     \<Rightarrow> bool \<Rightarrow> world \<Rightarrow> (exn + real list) \<times> world" where
  "extract_average_scores self lib c info submissions score_type exclude_withdrawn w =
     (let paper_numbers = sort (map number submissions);
          cache_key =
            ''scores_'' @ conference_id self @ ''_'' @ score_type @ ''_'' @
              (if exclude_withdrawn then ''True'' else ''False'') @ ''_'' @
              str_int (tuple_hash lib paper_numbers)
      in
      case load_cache self lib cache_key w of
        (Inl e, w1) \<Rightarrow> (Inl e, w1)
      | (Inr (Some cached_data), w1) \<Rightarrow>
          (Inr cached_data, logging INFO ''Loaded %d scores from cache'' w1)
      | (Inr None, w1) \<Rightarrow>
          (case extract_loop self c info score_type exclude_withdrawn submissions []
                  (logging INFO ''Extracting %s scores from %d submissions'' w1) of
             (Inl e, w2) \<Rightarrow> (Inl e, w2)
           | (Inr avg_scores, w2) \<Rightarrow>
               (case save_cache self lib cache_key (Some avg_scores)
                       (logging INFO ''Extracted scores from %d papers (out of %d processed)''
                          w2) of
                  (Inl e, w3) \<Rightarrow> (Inl e, w3)
                | (Inr u, w3) \<Rightarrow> (Inr avg_scores, w3))))"

section \<open>Specification-level notions\<close>

text \<open>
  A row satisfies the conditions of \<^verbatim>\<open>where_\<close> when, for every condition
  \<open>k = v\<close>, the row holds \<open>v\<close> in the column headed \<open>k\<close>.
\<close>

definition conditions_match :: "string list \<Rightarrow> (string \<times> string) list \<Rightarrow> string list \<Rightarrow> bool" where
  "conditions_match hs where_item row =
     (\<forall>(k, v) \<in> set where_item. \<exists>i. list_index hs k = Some i \<and> i < length row \<and> row ! i = v)"

text \<open>
  The states reachable from \<open>s\<close> by reading the property \<^verbatim>\<open>headers\<close>:
  either \<open>s\<close> or \<open>s\<close> with the header row memoised.
\<close>

definition memo_of :: "sheet \<Rightarrow> sheet \<Rightarrow> bool" where
  "memo_of s s' = (s' = s \<or> s' = snd (headers s))"

text \<open>
  The list \<^verbatim>\<open>scores\<close> of a paper that reaches the extraction: the extracted
  values without the \<^verbatim>\<open>None\<close>s. \<open>None\<close> for a paper the loop leaves before
  (withdrawn and excluded, without reviews, or no extractor configured).
  \<open>contributed\<close> is what the paper adds to the result: the arithmetic mean of
  a non-empty list, nothing otherwise.
\<close>

definition filtered_scores ::
  "generator \<Rightarrow> client \<Rightarrow> conference_info \<Rightarrow> string \<Rightarrow> bool \<Rightarrow> submission \<Rightarrow> real list option" where
  "filtered_scores self c info score_type exclude_withdrawn p =
     (if exclude_withdrawn \<and> sublist ''Withdrawn'' (case venue p of None \<Rightarrow> [] | Some v \<Rightarrow> v)
      then None
      else
        let reviews =
              filter (\<lambda>n. (conference_id self @ ''/Submission'' @ str_int (number p) @
                             ''/-/Official_Review'') \<in> set (invitations n))
                (forum_notes c (forum p))
        in if reviews = [] then None
           else (case paper_scores info score_type reviews of
                   Inr (Some scores) \<Rightarrow> Some scores
                 | _ \<Rightarrow> None))"

definition contributed :: "real list option \<Rightarrow> real list" where
  "contributed scores =
     (case scores of
        None \<Rightarrow> []
      | Some xs \<Rightarrow> if xs = [] then [] else [sum_list xs / real (length xs)])"

text \<open>
  The words of the specification for the targeted updates of one located
  row: an update naming a column that is not in the header row is skipped
  with a warning; an update of a cell that is non-empty and differs from the
  new value is skipped with a warning unless overwrite is requested; every
  other update stages the new value for its cell, an overwrite of a
  different non-empty value being logged. \<open>update_outcome\<close> gives the cell
  staged and the log records of one update, \<open>staged_cells\<close> and
  \<open>update_records\<close> those of a list of updates in order, and
  \<open>named_columns\<close> the column indices the updates refer to.
\<close>

definition update_outcome ::
  "string list \<Rightarrow> string list \<Rightarrow> nat \<Rightarrow> bool \<Rightarrow> string \<times> string
     \<Rightarrow> (nat \<times> nat \<times> string) list \<times> (level \<times> string) list" where
  "update_outcome hs row r overwrite kv =
     (case list_index hs (fst kv) of
        None \<Rightarrow> ([], [(WARNING, ''Column header not found in headers'')])
      | Some c \<Rightarrow>
          if row ! c \<noteq> [] \<and> row ! c \<noteq> snd kv \<and> \<not> overwrite
          then ([], [(WARNING, ''Skipping non-empty cell'')])
          else ([(r, c, snd kv)],
                if row ! c \<noteq> [] \<and> row ! c \<noteq> snd kv \<and> overwrite
                then [(INFO, ''Overwriting cell'')] else []))"

definition staged_cells ::
  "string list \<Rightarrow> string list \<Rightarrow> nat \<Rightarrow> bool \<Rightarrow> (string \<times> string) list
     \<Rightarrow> (nat \<times> nat \<times> string) list" where
  "staged_cells hs row r overwrite what_item =
     concat (map (\<lambda>kv. fst (update_outcome hs row r overwrite kv)) what_item)"

definition update_records ::
  "string list \<Rightarrow> string list \<Rightarrow> nat \<Rightarrow> bool \<Rightarrow> (string \<times> string) list
     \<Rightarrow> (level \<times> string) list" where
  "update_records hs row r overwrite what_item =
     concat (map (\<lambda>kv. snd (update_outcome hs row r overwrite kv)) what_item)"

definition named_columns :: "string list \<Rightarrow> (string \<times> string) list \<Rightarrow> nat list" where
  "named_columns hs what_item = List.map_filter (\<lambda>kv. list_index hs (fst kv)) what_item"

text \<open>
  The words of the specification for the area-chair groups: the text that
  follows the first occurrence of a separator; the segment of a group id
  between \<^verbatim>\<open>'/Submission'\<close> and the next \<^verbatim>\<open>'/'\<close>; specific-assignment groups
  and pool groups; the integers parsed from the segments of the specific
  groups.
\<close>

fun after_first :: "string \<Rightarrow> string \<Rightarrow> string option" where
  "after_first sep [] = None"
| "after_first sep (c # cs) =
     (if prefix sep (c # cs) then Some (drop (length sep) (c # cs)) else after_first sep cs)"

definition paper_segment :: "string \<Rightarrow> string" where
  "paper_segment g =
     (case after_first ''/Submission'' g of
        None \<Rightarrow> []
      | Some t \<Rightarrow> takeWhile (\<lambda>ch. ch \<noteq> CHR ''/'') t)"

definition specific_group :: "string \<Rightarrow> string \<Rightarrow> bool" where
  "specific_group conf g =
     (sublist conf g \<and> sublist ''/Submission'' g \<and> sublist ''/Area_Chair_'' g)"

definition pool_group :: "string \<Rightarrow> string \<Rightarrow> bool" where
  "pool_group conf g =
     (\<not> specific_group conf g \<and> sublist conf g \<and> sublist ''/Submission'' g \<and>
      suffix ''/Area_Chairs'' g)"

definition assigned_numbers :: "'v stdlib \<Rightarrow> string \<Rightarrow> string list \<Rightarrow> int set" where
  "assigned_numbers lib conf groups =
     set (List.map_filter (\<lambda>g. int_of_str lib (paper_segment g))
            (filter (specific_group conf) groups))"

section \<open>Example data\<close>

text \<open>
  A world with no files in which every request succeeds; one whose cache
  file for the key \<^verbatim>\<open>k\<close> does not unpickle; one in which every path holds a
  cache file. A generator with caching enabled and one with caching disabled.
\<close>

definition quiet_world :: world where
  "quiet_world =
     \<lparr>files = (\<lambda>p. None), read_denied = (\<lambda>p. False), write_denied = (\<lambda>p. False),
      log_records = [], requests = []\<rparr>"

definition garbage_world :: world where
  "garbage_world = quiet_world\<lparr>files := (\<lambda>p. if p = ''d/k.pkl'' then Some ''garbage'' else None)\<rparr>"

definition cached_world :: world where
  "cached_world = quiet_world\<lparr>files := (\<lambda>p. Some ''cached'')\<rparr>"

definition caching :: generator where
  "caching = \<lparr>conference_id = ''Conf'', use_cache = True, refresh_cache = False, cache_dir = ''d''\<rparr>"

definition no_cache :: generator where
  "no_cache = caching\<lparr>use_cache := False\<rparr>"

text \<open>
  Papers by number, and a stub client serving a given list of submissions
  under every invitation, where no request fails; a client with reviews
  (paper 7 has two official reviews rated 3 and 6 and a comment, paper 8 one
  official review without a rating) and an extractor reading the rating; a
  client whose user is an area chair and belongs to the given groups.
\<close>

definition paper :: "int \<Rightarrow> submission" where
  "paper n = \<lparr>number = n, forum = ''forum'' @ str_int n, readers = [], venue = None\<rparr>"

definition stub_client :: "submission list \<Rightarrow> client" where
  "stub_client notes =
     \<lparr>profile_id = ''~User1'', group_members = (\<lambda>g. []), member_groups = (\<lambda>u. []),
      invitation_notes = (\<lambda>i. notes), forum_notes = (\<lambda>f. []),
      page_error = (\<lambda>off. None), number_error = (\<lambda>n. None)\<rparr>"

definition review_client :: client where
  "review_client =
     (stub_client [paper 7, paper 8])
       \<lparr>forum_notes :=
          (\<lambda>f. if f = ''forum7'' then
                  [\<lparr>invitations = [''Conf/Submission7/-/Official_Review''],
                     content = [(''rating'', ''3'')]\<rparr>,
                   \<lparr>invitations = [''Conf/Submission7/-/Official_Comment''],
                     content = [(''comment'', ''thanks'')]\<rparr>,
                   \<lparr>invitations = [''Conf/Submission7/-/Official_Review''],
                     content = [(''rating'', ''6'')]\<rparr>]
                else if f = ''forum8'' then
                  [\<lparr>invitations = [''Conf/Submission8/-/Official_Review''],
                     content = [(''summary'', ''fine'')]\<rparr>]
                else [])\<rparr>"

definition rating_info :: conference_info where
  "rating_info =
     \<lparr>RATING_EXTRACTOR =
        Some (\<lambda>review. case map_of (content review) ''rating'' of
                          None \<Rightarrow> None
                        | Some s \<Rightarrow> map_option real_of_int (decimal_int s)),
      FINAL_RATING_EXTRACTOR = None\<rparr>"

definition ac_client :: "string list \<Rightarrow> client" where
  "ac_client groups =
     (stub_client [paper 7, paper 8])
       \<lparr>group_members := (\<lambda>g. [''~User1'']), member_groups := (\<lambda>u. groups)\<rparr>"

text \<open>
  Libraries: one whose pickle format is a tag character followed by the
  string; one whose cache files all unpickle to the list of paper 7; one whose
  cache files all unpickle to the empty score list.
\<close>

definition text_lib :: "string stdlib" where
  "text_lib =
     \<lparr>md5_hexdigest = (\<lambda>k. k),
      pickle_dump = (\<lambda>v. case v of None \<Rightarrow> Inr ''N'' | Some s \<Rightarrow> Inr (CHR ''S'' # s)),
      pickle_load = (\<lambda>b. case b of [] \<Rightarrow> Inl UnpicklingError
                          | c # s \<Rightarrow> if c = CHR ''S'' then Inr (Some s)
                                     else if b = ''N'' then Inr None else Inl UnpicklingError),
      tuple_hash = (\<lambda>ns. 0),
      int_of_str = decimal_int\<rparr>"

definition text_lib_subs :: "submission list stdlib" where
  "text_lib_subs =
     \<lparr>md5_hexdigest = (\<lambda>k. k),
      pickle_dump = (\<lambda>v. Inr ''cached''),
      pickle_load = (\<lambda>b. Inr (Some [paper 7])),
      tuple_hash = (\<lambda>ns. 0),
      int_of_str = decimal_int\<rparr>"

definition text_lib_scores :: "real list stdlib" where
  "text_lib_scores =
     \<lparr>md5_hexdigest = (\<lambda>k. k),
      pickle_dump = (\<lambda>v. Inr ''cached''),
      pickle_load = (\<lambda>b. Inr (Some [])),
      tuple_hash = (\<lambda>ns. 0),
      int_of_str = decimal_int\<rparr>"

text \<open>A sheet headed \<^verbatim>\<open>['A', 'C']\<close> without data rows, and a sheet of two data rows.\<close>

definition sheet_AC :: sheet where
  "sheet_AC = \<lparr>local_sheet_values = [[''A'', ''C'']], headers_attr = None, cell_buffer = [],
     sheet_log = []\<rparr>"

definition sheet_people :: sheet where
  "sheet_people =
     \<lparr>local_sheet_values = [[''id'', ''status''], [''7'', ''X''], [''8'', '''']],
      headers_attr = None, cell_buffer = [], sheet_log = []\<rparr>"

text \<open>
  A paper with a given reader list, and a client serving three such papers
  whose user belongs to the pool group of paper 7 only: paper 7 is read by
  its own area-chair group, paper 8 by its own group, which is not the
  user's, and paper 9 by the user's group, which is not its own.
\<close>

definition read_by :: "int \<Rightarrow> string list \<Rightarrow> submission" where
  "read_by n rs = (paper n)\<lparr>readers := rs\<rparr>"

definition reader_client :: client where
  "reader_client =
     (stub_client [read_by 7 [''Conf/Submission7/Area_Chairs''],
                   read_by 8 [''Conf/Submission8/Area_Chairs''],
                   read_by 9 [''Conf/Submission7/Area_Chairs'']])
       \<lparr>group_members := (\<lambda>g. [''~User1'']),
        member_groups := (\<lambda>u. [''Conf/Submission7/Area_Chairs''])\<rparr>"

section \<open>Properties of the disk cache\<close>

lemma read_pickle_logging: "read_pickle lib (logging l m w) p = read_pickle lib w p"
  by (simp add: read_pickle_def open_rb_def logging_def split: option.splits)

lemma write_pickle_logging:
  "fst (write_pickle lib (logging l m w) p v) = fst (write_pickle lib w p v)"
  by (simp add: write_pickle_def logging_def split: sum.splits prod.splits)

lemma load_cache_returns: "\<exists>r. fst (load_cache self lib k w) = Inr r"
  by (simp add: load_cache_def Let_def split: sum.splits)

lemma save_cache_returns: "fst (save_cache self lib k v w) = Inr ()"
  by (simp add: save_cache_def Let_def split: sum.splits prod.splits)

text \<open>
  Claim C1, as the code has it. With caching enabled and not refreshing,
  \<^verbatim>\<open>_save_cache(k, v)\<close> followed by \<^verbatim>\<open>_load_cache(k)\<close> returns \<open>v\<close> whenever
  the write succeeded (the cache file could be opened for writing and \<open>v\<close>
  was pickled) and the read succeeds (the file can be opened for reading and
  unpickling the stored bytes gives \<open>v\<close> back). Both calls use the same path,
  whatever the hash function is.
\<close>

theorem cache_round_trip:
  assumes "use_cache self" and "\<not> refresh_cache self"
    and "\<not> write_denied w (get_cache_path self lib k)"
    and "\<not> read_denied w (get_cache_path self lib k)"
    and "pickle_dump lib v = Inr b" and "pickle_load lib b = Inr v"
  shows "fst (load_cache self lib k (snd (save_cache self lib k v w))) = Inr v"
  using assms
  by (simp add: save_cache_def load_cache_def write_pickle_def read_pickle_def open_rb_def
      logging_def Let_def)

theorem cache_round_trip_witness:
  "use_cache caching \<and> \<not> refresh_cache caching \<and>
   \<not> write_denied quiet_world (get_cache_path caching text_lib ''k'') \<and>
   \<not> read_denied quiet_world (get_cache_path caching text_lib ''k'') \<and>
   pickle_dump text_lib (Some ''x'') = Inr ''Sx'' \<and> pickle_load text_lib ''Sx'' = Inr (Some ''x'') \<and>
   fst (load_cache caching text_lib ''k''
          (snd (save_cache caching text_lib ''k'' (Some ''x'') quiet_world))) = Inr (Some ''x'')"
proof -
  have h: "use_cache caching" "\<not> refresh_cache caching"
    "\<not> write_denied quiet_world (get_cache_path caching text_lib ''k'')"
    "\<not> read_denied quiet_world (get_cache_path caching text_lib ''k'')"
    "pickle_dump text_lib (Some ''x'') = Inr ''Sx''" "pickle_load text_lib ''Sx'' = Inr (Some ''x'')"
    by (simp_all add: caching_def quiet_world_def text_lib_def)
  from cache_round_trip[OF h] h show ?thesis by simp
qed

text \<open>
  The round trip as stated for every key and value fails where the write
  fails: \<^verbatim>\<open>_save_cache\<close> logs the OSError and returns, no file exists, and
  \<^verbatim>\<open>_load_cache\<close> returns \<^verbatim>\<open>None\<close>.
\<close>

theorem cache_round_trip_counterexample:
  "use_cache caching \<and> \<not> refresh_cache caching \<and>
   fst (load_cache caching text_lib ''k''
          (snd (save_cache caching text_lib ''k'' (Some ''x'')
                  (quiet_world\<lparr>write_denied := (\<lambda>p. True)\<rparr>)))) \<noteq> Inr (Some ''x'')"
  by (simp add: save_cache_def load_cache_def write_pickle_def read_pickle_def open_rb_def
      logging_def Let_def caching_def quiet_world_def text_lib_def get_cache_path_def)

text \<open>
  Claim C7. Neither cache operation raises: \<^verbatim>\<open>_load_cache\<close> always returns a
  value and \<^verbatim>\<open>_save_cache\<close> always returns normally. When reading or
  unpickling an existing cache file raises, \<^verbatim>\<open>_load_cache\<close> returns \<^verbatim>\<open>None\<close>
  after logging a warning; when opening or pickling raises, \<^verbatim>\<open>_save_cache\<close>
  returns after logging a warning.
\<close>

theorem cache_errors_never_propagate:
  "(\<exists>r. fst (load_cache self lib k w) = Inr r) \<and>
   fst (save_cache self lib k v w) = Inr () \<and>
   (use_cache self \<and> \<not> refresh_cache self \<and> files w (get_cache_path self lib k) \<noteq> None \<and>
    read_pickle lib w (get_cache_path self lib k) = Inl e \<longrightarrow>
      load_cache self lib k w =
        (Inr None, logging WARNING ''Failed to load cache: %s''
                     (logging INFO ''Loading data from cache: %s'' w))) \<and>
   (use_cache self \<and> fst (write_pickle lib w (get_cache_path self lib k) v) = Inl e \<longrightarrow>
      save_cache self lib k v w =
        (Inr (), logging WARNING ''Failed to save cache: %s''
                   (snd (write_pickle lib (logging INFO ''Saving data to cache: %s'' w)
                           (get_cache_path self lib k) v))))"
proof (intro conjI impI)
  show "\<exists>r. fst (load_cache self lib k w) = Inr r" by (rule load_cache_returns)
  show "fst (save_cache self lib k v w) = Inr ()" by (rule save_cache_returns)
next
  assume a: "use_cache self \<and> \<not> refresh_cache self \<and> files w (get_cache_path self lib k) \<noteq> None \<and>
    read_pickle lib w (get_cache_path self lib k) = Inl e"
  then have "read_pickle lib (logging INFO ''Loading data from cache: %s'' w)
      (get_cache_path self lib k) = Inl e"
    by (simp add: read_pickle_logging)
  with a show "load_cache self lib k w =
        (Inr None, logging WARNING ''Failed to load cache: %s''
                     (logging INFO ''Loading data from cache: %s'' w))"
    by (auto simp add: load_cache_def Let_def)
next
  assume a: "use_cache self \<and> fst (write_pickle lib w (get_cache_path self lib k) v) = Inl e"
  then have "fst (write_pickle lib (logging INFO ''Saving data to cache: %s'' w)
      (get_cache_path self lib k) v) = Inl e"
    by (simp add: write_pickle_logging)
  with a show "save_cache self lib k v w =
        (Inr (), logging WARNING ''Failed to save cache: %s''
                   (snd (write_pickle lib (logging INFO ''Saving data to cache: %s'' w)
                           (get_cache_path self lib k) v)))"
    by (auto simp add: save_cache_def Let_def split: prod.splits sum.splits)
qed

theorem cache_errors_never_propagate_witness:
  "use_cache caching \<and> \<not> refresh_cache caching \<and>
   files garbage_world (get_cache_path caching text_lib ''k'') = Some ''garbage'' \<and>
   read_pickle text_lib garbage_world (get_cache_path caching text_lib ''k'') = Inl UnpicklingError \<and>
   load_cache caching text_lib ''k'' garbage_world
     = (Inr None, logging WARNING ''Failed to load cache: %s''
                    (logging INFO ''Loading data from cache: %s'' garbage_world)) \<and>
   fst (write_pickle text_lib (quiet_world\<lparr>write_denied := (\<lambda>p. True)\<rparr>)
          (get_cache_path caching text_lib ''k'') (Some ''x'')) = Inl OSError \<and>
   fst (save_cache caching text_lib ''k'' (Some ''x'') (quiet_world\<lparr>write_denied := (\<lambda>p. True)\<rparr>))
     = Inr () \<and>
   log_records (snd (save_cache caching text_lib ''k'' (Some ''x'')
                       (quiet_world\<lparr>write_denied := (\<lambda>p. True)\<rparr>)))
     = [(INFO, ''Saving data to cache: %s''), (WARNING, ''Failed to save cache: %s'')]"
proof -
  have p: "get_cache_path caching text_lib ''k'' = ''d/k.pkl''"
    by (simp add: get_cache_path_def caching_def text_lib_def)
  have h: "use_cache caching" "\<not> refresh_cache caching"
    "files garbage_world (get_cache_path caching text_lib ''k'') = Some ''garbage''"
    "read_pickle text_lib garbage_world (get_cache_path caching text_lib ''k'') = Inl UnpicklingError"
    unfolding p
    by (simp_all add: caching_def garbage_world_def quiet_world_def read_pickle_def open_rb_def
        text_lib_def)
  have g: "fst (write_pickle text_lib (quiet_world\<lparr>write_denied := (\<lambda>p. True)\<rparr>)
          (get_cache_path caching text_lib ''k'') (Some ''x'')) = Inl OSError"
    unfolding p by (simp add: write_pickle_def)
  have l: "log_records quiet_world = []" by (simp add: quiet_world_def)
  from cache_errors_never_propagate[of caching text_lib "''k''" garbage_world "Some ''x''" UnpicklingError]
    cache_errors_never_propagate[of caching text_lib "''k''" "quiet_world\<lparr>write_denied := (\<lambda>p. True)\<rparr>"
      "Some ''x''" OSError]
    h g l
  show ?thesis by (simp add: write_pickle_def logging_def)
qed

section \<open>Properties of header reconciliation\<close>

lemma headers_frame [simp]:
  "local_sheet_values (snd (headers s)) = local_sheet_values s"
  "cell_buffer (snd (headers s)) = cell_buffer s"
  "sheet_log (snd (headers s)) = sheet_log s"
  by (simp_all add: headers_def)

lemma headers_memo: "headers (snd (headers s)) = (fst (headers s), snd (headers s))"
  by (simp add: headers_def)

lemma headers_None_no_rows: "fst (headers s) = None \<Longrightarrow> local_sheet_values s = []"
  by (simp add: headers_def split: if_splits)

lemma list_index_None: "list_index xs v = None \<longleftrightarrow> v \<notin> set xs"
  by (induction xs) auto

lemma list_index_Some: "list_index xs v = Some i \<Longrightarrow> i < length xs \<and> xs ! i = v"
  by (induction xs arbitrary: i) (auto split: if_splits)

lemma list_index_mem: "v \<in> set xs \<Longrightarrow> \<exists>i. list_index xs v = Some i"
  using list_index_None[of xs v] by (cases "list_index xs v") auto

lemma copy_existing_fits:
  "i + length e \<le> length hs \<Longrightarrow>
   copy_existing e i hs = Inr (take i hs @ map Some e @ drop (i + length e) hs)"
proof (induction e arbitrary: i hs)
  case Nil
  then show ?case by simp
next
  case (Cons x e)
  then have i: "i < length hs" by simp
  have len: "Suc i + length e \<le> length (hs[i := Some x])" using Cons.prems by simp
  have t: "take (Suc i) (hs[i := Some x]) = take i hs @ [Some x]"
    using i by (simp add: take_Suc_conv_app_nth)
  have d: "drop (Suc i + length e) (hs[i := Some x]) = drop (Suc i + length e) hs"
    by (simp add: drop_update_cancel)
  show ?case
    using i Cons.IH[OF len] t d by (simp add: list_assign_def)
qed

lemma copy_existing_replicate:
  "length e \<le> n \<Longrightarrow>
   copy_existing e 0 (replicate n None) = Inr (map Some e @ replicate (n - length e) None)"
  using copy_existing_fits[of 0 e "replicate n None"] by simp

lemma write_loop_known:
  assumes "h \<in> set e" and "list_index e h = Some j" and "j < length hs" and "hs ! j = Some h"
  shows "write_loop False r (Some e) ((i, h) # rest) hs cur s
         = write_loop False r (Some e) rest hs cur s"
proof -
  have "e \<noteq> []" using assms(1) by auto
  moreover have "hs[j := Some h] = hs" using assms(4) by (metis list_update_id)
  ultimately show ?thesis using assms by (simp add: header_list_def list_assign_def)
qed

lemma write_loop_new:
  assumes "h \<notin> set e" and "cur < length hs"
  shows "write_loop False r (Some e) ((i, h) # rest) hs cur s
         = write_loop False r (Some e) rest (hs[cur := Some h]) (Suc cur)
             (set_buffer_cells r cur h s)"
  using assms by (simp add: header_list_def list_assign_def Let_def)

lemma write_loop_append:
  "length (filter (\<lambda>h. h \<notin> set existing) hdrs) \<le> k \<Longrightarrow>
   fst (write_loop False r (Some existing) (enumerate i hdrs)
          (map Some existing @ map Some placed @ replicate k None)
          (length existing + length placed) s)
   = Inr (map Some existing @ map Some (placed @ filter (\<lambda>h. h \<notin> set existing) hdrs)
            @ replicate (k - length (filter (\<lambda>h. h \<notin> set existing) hdrs)) None,
          length existing + length placed + length (filter (\<lambda>h. h \<notin> set existing) hdrs))"
proof (induction hdrs arbitrary: i placed k s)
  case Nil
  then show ?case by simp
next
  case (Cons h hdrs)
  let ?hs = "map Some existing @ map Some placed @ replicate k None"
  show ?case
  proof (cases "h \<in> set existing")
    case True
    then obtain j where j: "list_index existing h = Some j"
      using list_index_mem by fastforce
    then have jl: "j < length existing" and jn: "existing ! j = h"
      using list_index_Some by fastforce+
    have at: "?hs ! j = Some h" using jl jn by (simp add: nth_append)
    have jl': "j < length ?hs" using jl by simp
    have len: "length (filter (\<lambda>h. h \<notin> set existing) hdrs) \<le> k"
      using Cons.prems True by simp
    have step: "write_loop False r (Some existing) (enumerate i (h # hdrs)) ?hs
                  (length existing + length placed) s
                = write_loop False r (Some existing) (enumerate (Suc i) hdrs) ?hs
                  (length existing + length placed) s"
      unfolding enumerate_simps by (rule write_loop_known[OF True j jl' at])
    show ?thesis unfolding step using Cons.IH[OF len, of "Suc i" placed s] True by simp
  next
    case False
    then obtain k' where k: "k = Suc k'" using Cons.prems by (cases k) auto
    have len: "length (filter (\<lambda>h. h \<notin> set existing) hdrs) \<le> k'"
      using Cons.prems False k by simp
    have cur: "length existing + length placed < length ?hs" using k by simp
    have upd: "?hs[length existing + length placed := Some h]
               = map Some existing @ map Some (placed @ [h]) @ replicate k' None"
      using k by (simp add: list_update_append)
    have step: "write_loop False r (Some existing) (enumerate i (h # hdrs)) ?hs
                  (length existing + length placed) s
                = write_loop False r (Some existing) (enumerate (Suc i) hdrs)
                    (map Some existing @ map Some (placed @ [h]) @ replicate k' None)
                    (length existing + length (placed @ [h]))
                    (set_buffer_cells r (length existing + length placed) h s)"
      unfolding enumerate_simps write_loop_new[OF False cur] upd by simp
    show ?thesis
      unfolding step
      using Cons.IH[OF len, of "Suc i" "placed @ [h]"
              "set_buffer_cells r (length existing + length placed) h s"] False k
      by simp
  qed
qed

lemma write_loop_overwrite:
  "length hs = i + length hdrs \<Longrightarrow>
   fst (write_loop True r ex (enumerate i hdrs) hs cur s) = Inr (take i hs @ map Some hdrs, cur)"
proof (induction hdrs arbitrary: i hs s)
  case Nil
  then show ?case by simp
next
  case (Cons h hdrs)
  then have i: "i < length hs" by simp
  have len: "length (hs[i := Some h]) = Suc i + length hdrs" using Cons.prems by simp
  have t: "take (Suc i) (hs[i := Some h]) = take i hs @ [Some h]"
    using i by (simp add: take_Suc_conv_app_nth)
  show ?case
    using i Cons.IH[OF len, of "set_buffer_cells r i h s"] t
    by (simp add: list_assign_def Let_def)
qed

lemma card_union_new:
  assumes "distinct existing" and "distinct (filter (\<lambda>h. h \<notin> set existing) hdrs)"
  shows "card (set hdrs \<union> set existing)
         = length existing + length (filter (\<lambda>h. h \<notin> set existing) hdrs)"
proof -
  let ?new = "filter (\<lambda>h. h \<notin> set existing) hdrs"
  have c1: "card (set existing) = length existing" using assms(1) by (rule distinct_card)
  have c2: "card (set ?new) = length ?new" using assms(2) by (rule distinct_card)
  have u: "set hdrs \<union> set existing = set existing \<union> set ?new" by auto
  have "card (set existing \<union> set ?new) = card (set existing) + card (set ?new)"
    by (intro card_Un_disjoint) auto
  then show ?thesis unfolding u c1 c2 .
qed

text \<open>
  Claim C5, as the code has it. For an existing header row without
  duplicates and a written list whose new names are without duplicates,
  \<^verbatim>\<open>_write_headers\<close> without overwrite returns the existing headers in their
  positions followed by the new names in write order; with overwrite it
  returns exactly the written list, whatever the sheet holds.
\<close>

theorem write_headers_reconciles:
  "(fst (headers self) = Some existing \<and> distinct existing \<and>
    distinct (filter (\<lambda>h. h \<notin> set existing) hdrs) \<longrightarrow>
      fst (write_headers hdrs r False self)
        = Inr (r + 1, map Some (existing @ filter (\<lambda>h. h \<notin> set existing) hdrs))) \<and>
   fst (write_headers hdrs r True self) = Inr (r + 1, map Some hdrs)"
proof (intro conjI impI)
  assume a: "fst (headers self) = Some existing \<and> distinct existing \<and>
    distinct (filter (\<lambda>h. h \<notin> set existing) hdrs)"
  let ?new = "filter (\<lambda>h. h \<notin> set existing) hdrs"
  obtain self1 where h: "headers self = (Some existing, self1)"
    using a by (cases "headers self") auto
  have n: "card (set hdrs \<union> set existing) = length existing + length ?new"
    using a by (simp add: card_union_new)
  have init: "copy_existing existing 0 (replicate (card (set hdrs \<union> set existing)) None)
              = Inr (map Some existing @ map Some [] @ replicate (length ?new) None)"
    unfolding n using copy_existing_replicate[of existing "length existing + length ?new"]
    by simp
  have loop: "fst (write_loop False r (Some existing) (enumerate 0 hdrs)
                (map Some existing @ map Some [] @ replicate (length ?new) None)
                (length existing + length ([]::string list)) self1)
        = Inr (map Some existing @ map Some ([] @ ?new) @ replicate (length ?new - length ?new) None,
               length existing + length ([]::string list) + length ?new)"
    by (rule write_loop_append) simp
  obtain res s2 where wl: "write_loop False r (Some existing) (enumerate 0 hdrs)
      (map Some existing @ replicate (length ?new) None) (length existing) self1 = (res, s2)"
    by (cases "write_loop False r (Some existing) (enumerate 0 hdrs)
      (map Some existing @ replicate (length ?new) None) (length existing) self1") auto
  have res: "res = Inr (map Some existing @ map Some ?new, length existing + length ?new)"
    using loop wl by simp
  have init': "copy_existing existing 0 (replicate (card (set hdrs \<union> set existing)) None)
              = Inr (map Some existing @ replicate (length ?new) None)"
    using init by simp
  show "fst (write_headers hdrs r False self) = Inr (r + 1, map Some (existing @ ?new))"
    by (simp add: write_headers_def h header_list_def init' wl res)
next
  obtain ex self1 where h: "headers self = (ex, self1)" by (cases "headers self") auto
  have loop: "fst (write_loop True r ex (enumerate 0 hdrs) (replicate (length hdrs) None)
                (length (header_list ex)) self1)
              = Inr (take 0 (replicate (length hdrs) None) @ map Some hdrs, length (header_list ex))"
    by (rule write_loop_overwrite) simp
  obtain res s2 where wl: "write_loop True r ex (enumerate 0 hdrs) (replicate (length hdrs) None)
                (length (header_list ex)) self1 = (res, s2)"
    by (cases "write_loop True r ex (enumerate 0 hdrs) (replicate (length hdrs) None)
                (length (header_list ex)) self1") auto
  have res: "res = Inr (map Some hdrs, length (header_list ex))"
    using loop wl by simp
  show "fst (write_headers hdrs r True self) = Inr (r + 1, map Some hdrs)"
    by (simp add: write_headers_def h wl res)
qed

theorem write_headers_reconciles_witness:
  "fst (headers sheet_AC) = Some [''A'', ''C''] \<and> distinct [''A'', ''C''] \<and>
   distinct (filter (\<lambda>h. h \<notin> set [''A'', ''C'']) [''A'', ''B'']) \<and>
   fst (write_headers [''A'', ''B''] 0 False sheet_AC) = Inr (1, [Some ''A'', Some ''C'', Some ''B'']) \<and>
   fst (write_headers [''A'', ''B''] 0 True sheet_AC) = Inr (1, [Some ''A'', Some ''B''])"
proof -
  have h: "fst (headers sheet_AC) = Some [''A'', ''C''] \<and> distinct [''A'', ''C''] \<and>
   distinct (filter (\<lambda>h. h \<notin> set [''A'', ''C'']) [''A'', ''B''])"
    by (simp add: headers_def sheet_AC_def)
  from write_headers_reconciles[of sheet_AC "[''A'', ''C'']" "[''A'', ''B'']" 0] h
  show ?thesis by simp
qed

text \<open>
  The new header list is sized by the set of names. An existing header row
  \<^verbatim>\<open>['A', 'A']\<close> does not fit into the one slot of \<^verbatim>\<open>{'A'}\<close>: copying it
  raises IndexError before anything is staged. Writing \<^verbatim>\<open>['B', 'B']\<close> onto a
  sheet headed \<^verbatim>\<open>['A']\<close> gives two slots, and the second \<^verbatim>\<open>'B'\<close> is assigned
  at index 2, an IndexError again (here the staged cells do not alter the
  header row the loop reads).
\<close>

theorem write_headers_reconciles_counterexample:
  "fst (headers (sheet_AC\<lparr>local_sheet_values := [[''A'', ''A'']]\<rparr>)) = Some [''A'', ''A''] \<and>
   write_headers [''A''] 0 False (sheet_AC\<lparr>local_sheet_values := [[''A'', ''A'']]\<rparr>)
     = (Inl IndexError,
        sheet_AC\<lparr>local_sheet_values := [[''A'', ''A'']], headers_attr := Some [''A'', ''A'']\<rparr>) \<and>
   fst (headers (sheet_AC\<lparr>local_sheet_values := [[''A'']]\<rparr>)) = Some [''A''] \<and>
   fst (write_headers [''B'', ''B''] 0 False (sheet_AC\<lparr>local_sheet_values := [[''A'']]\<rparr>))
     = Inl IndexError"
  by (simp add: write_headers_def headers_def sheet_AC_def header_list_def list_assign_def
      set_buffer_cells_def Let_def card_insert_if)

section \<open>Properties of targeted cell updates\<close>

lemma memo_of_refl: "memo_of s s"
  by (simp add: memo_of_def)

lemma memo_of_headers:
  assumes "memo_of s s'"
  shows "fst (headers s') = fst (headers s)" and "snd (headers s') = snd (headers s)"
  using assms headers_memo[of s] by (auto simp: memo_of_def)

lemma memo_of_step: "memo_of s s' \<Longrightarrow> memo_of s (snd (headers s'))"
  using memo_of_headers(2)[of s s'] by (simp add: memo_of_def)

lemma memo_of_frame:
  assumes "memo_of s s'"
  shows "local_sheet_values s' = local_sheet_values s" and "cell_buffer s' = cell_buffer s"
    and "sheet_log s' = sheet_log s"
  using assms by (auto simp: memo_of_def)

lemma all_conditions_memo: "memo_of s s0 \<Longrightarrow> memo_of s (snd (all_conditions w row s0))"
proof (induction w arbitrary: s0)
  case Nil
  then show ?case by simp
next
  case (Cons kv w)
  obtain k v where kv: "kv = (k, v)" by (cases kv) auto
  obtain h s1 where h: "headers s0 = (h, s1)" by (cases "headers s0") auto
  have s1: "memo_of s s1" using memo_of_step[OF Cons.prems] h by simp
  show ?case using s1 Cons.IH[OF s1]
    by (simp add: kv h split: option.splits)
qed

lemma find_row_memo: "memo_of s s0 \<Longrightarrow> memo_of s (snd (find_row w rows s0))"
proof (induction rows arbitrary: s0)
  case Nil
  then show ?case by simp
next
  case (Cons ir rows)
  obtain i row where ir: "ir = (i, row)" by (cases ir) auto
  obtain res s1 where a: "all_conditions w row s0 = (res, s1)"
    by (cases "all_conditions w row s0") auto
  have s1: "memo_of s s1" using all_conditions_memo[OF Cons.prems, of w row] a by simp
  show ?case using s1 Cons.IH[OF s1]
    by (simp add: ir a split: sum.splits)
qed

lemma find_row_bound:
  "fst (find_row w (enumerate i rows) s0) = Inr (Some r) \<Longrightarrow> i \<le> r \<and> r < i + length rows"
proof (induction rows arbitrary: i s0)
  case Nil
  then show ?case by simp
next
  case (Cons row rows)
  obtain res s1 where a: "all_conditions w row s0 = (res, s1)"
    by (cases "all_conditions w row s0") auto
  show ?case
  proof (cases res)
    case (Inl e)
    then show ?thesis using Cons.prems a by simp
  next
    case (Inr matched)
    show ?thesis
    proof (cases matched)
      case True
      then show ?thesis using Cons.prems a Inr by simp
    next
      case False
      then have "fst (find_row w (enumerate (Suc i) rows) s1) = Inr (Some r)"
        using Cons.prems a Inr by simp
      from Cons.IH[OF this] show ?thesis by simp
    qed
  qed
qed

lemma all_conditions_value:
  assumes "fst (headers s) = Some hs" and "memo_of s s0"
    and "\<forall>(k, v) \<in> set w. k \<in> set hs" and "length row = length hs"
  shows "fst (all_conditions w row s0) = Inr (conditions_match hs w row)"
  using assms(2,3)
proof (induction w arbitrary: s0)
  case Nil
  then show ?case by (simp add: conditions_match_def)
next
  case (Cons kv w)
  obtain k v where kv: "kv = (k, v)" by (cases kv) auto
  obtain s1 where h: "headers s0 = (Some hs, s1)"
    using memo_of_headers(1)[OF Cons.prems(1)] assms(1) by (cases "headers s0") auto
  have s1: "memo_of s s1" using memo_of_step[OF Cons.prems(1)] h by simp
  have "k \<in> set hs" using Cons.prems(2) kv by simp
  then obtain i where i: "list_index hs k = Some i" using list_index_mem by fastforce
  then have il: "i < length row" using list_index_Some assms(4) by fastforce
  have rest: "\<forall>(k, v) \<in> set w. k \<in> set hs" using Cons.prems(2) by simp
  have m: "conditions_match hs ((k, v) # w) row = (row ! i = v \<and> conditions_match hs w row)"
    using i il by (simp add: conditions_match_def)
  show ?case using Cons.IH[OF s1 rest] i il
    by (simp add: kv h m)
qed

lemma find_row_unmatched:
  assumes "fst (headers s) = Some hs" and "\<forall>(k, v) \<in> set w. k \<in> set hs"
  shows "memo_of s s0 \<Longrightarrow> \<forall>row \<in> set rows. length row = length hs \<and> \<not> conditions_match hs w row
     \<Longrightarrow> fst (find_row w (enumerate i rows) s0) = Inr None"
proof (induction rows arbitrary: i s0)
  case Nil
  then show ?case by simp
next
  case (Cons row rows)
  obtain res s1 where a: "all_conditions w row s0 = (res, s1)"
    by (cases "all_conditions w row s0") auto
  have "fst (all_conditions w row s0) = Inr (conditions_match hs w row)"
    using all_conditions_value[OF assms(1) Cons.prems(1) assms(2)] Cons.prems(2) by simp
  then have res: "res = Inr False" using a Cons.prems(2) by simp
  have s1: "memo_of s s1" using all_conditions_memo[OF Cons.prems(1), of w row] a by simp
  have "\<forall>row \<in> set rows. length row = length hs \<and> \<not> conditions_match hs w row"
    using Cons.prems(2) by simp
  from Cons.IH[OF s1 this] show ?case by (simp add: a res)
qed

text \<open>
  When every condition of a pair names a column of the header row, the rows
  are as long as the header row and no row satisfies the conditions, the
  pair is skipped: a warning is logged, nothing is staged and the loop goes
  on with the remaining pairs and the same update count. An update whose
  column is not in the header row is skipped with a warning and the
  remaining updates of the pair are processed.
\<close>

lemma write_pairs_skips_unmatched:
  "(header_list (fst (headers self)) = hs \<and>
    (\<forall>(k, v) \<in> set where_item. k \<in> set hs) \<and>
    (\<forall>row \<in> set (local_sheet_values self).
        length row = length hs \<and> \<not> conditions_match hs where_item row) \<longrightarrow>
      (\<exists>self1. local_sheet_values self1 = local_sheet_values self \<and>
         cell_buffer self1 = cell_buffer self \<and>
         sheet_log self1 = sheet_log self @ [(WARNING, ''No matching row found for conditions'')] \<and>
         write_pairs overwrite ((where_item, what_item) # rest) n self
           = write_pairs overwrite rest n self1)) \<and>
   (fst (headers self) = Some hs \<and> col \<notin> set hs \<longrightarrow>
      (\<exists>self1. local_sheet_values self1 = local_sheet_values self \<and>
         cell_buffer self1 = cell_buffer self \<and>
         sheet_log self1 = sheet_log self @ [(WARNING, ''Column header not found in headers'')] \<and>
         update_cells overwrite r ((col, v) # others) n self
           = update_cells overwrite r others n self1))"
proof (intro conjI impI)
  assume a: "header_list (fst (headers self)) = hs \<and>
    (\<forall>(k, v) \<in> set where_item. k \<in> set hs) \<and>
    (\<forall>row \<in> set (local_sheet_values self).
        length row = length hs \<and> \<not> conditions_match hs where_item row)"
  obtain res s1 where f: "find_row where_item (enumerate 0 (local_sheet_values self)) self = (res, s1)"
    by (cases "find_row where_item (enumerate 0 (local_sheet_values self)) self") auto
  have "memo_of self (snd (find_row where_item (enumerate 0 (local_sheet_values self)) self))"
    by (rule find_row_memo[OF memo_of_refl])
  then have s1: "memo_of self s1" using f by simp
  have res: "res = Inr None"
  proof (cases "fst (headers self)")
    case None
    then have "local_sheet_values self = []" by (rule headers_None_no_rows)
    then show ?thesis using f by simp
  next
    case (Some hs')
    then have hs: "fst (headers self) = Some hs" using a by (simp add: header_list_def)
    have cols: "\<forall>(k, v) \<in> set where_item. k \<in> set hs" using a by blast
    have rows: "\<forall>row \<in> set (local_sheet_values self).
        length row = length hs \<and> \<not> conditions_match hs where_item row" using a by blast
    have "fst (find_row where_item (enumerate 0 (local_sheet_values self)) self) = Inr None"
      by (rule find_row_unmatched[OF hs cols memo_of_refl rows])
    then show ?thesis using f by simp
  qed
  let ?s = "sheet_logging WARNING ''No matching row found for conditions'' s1"
  have "local_sheet_values ?s = local_sheet_values self \<and> cell_buffer ?s = cell_buffer self \<and>
        sheet_log ?s = sheet_log self @ [(WARNING, ''No matching row found for conditions'')] \<and>
        write_pairs overwrite ((where_item, what_item) # rest) n self
           = write_pairs overwrite rest n ?s"
    using memo_of_frame[OF s1] by (simp add: f res sheet_logging_def)
  then show "\<exists>self1. local_sheet_values self1 = local_sheet_values self \<and>
         cell_buffer self1 = cell_buffer self \<and>
         sheet_log self1 = sheet_log self @ [(WARNING, ''No matching row found for conditions'')] \<and>
         write_pairs overwrite ((where_item, what_item) # rest) n self
           = write_pairs overwrite rest n self1" by blast
next
  assume a: "fst (headers self) = Some hs \<and> col \<notin> set hs"
  obtain s1 where h: "headers self = (Some hs, s1)" using a by (cases "headers self") auto
  have s1: "memo_of self s1" using h by (simp add: memo_of_def)
  have i: "list_index hs col = None" using a by (simp add: list_index_None)
  let ?s = "sheet_logging WARNING ''Column header not found in headers'' s1"
  have "local_sheet_values ?s = local_sheet_values self \<and> cell_buffer ?s = cell_buffer self \<and>
        sheet_log ?s = sheet_log self @ [(WARNING, ''Column header not found in headers'')] \<and>
        update_cells overwrite r ((col, v) # others) n self = update_cells overwrite r others n ?s"
    using memo_of_frame[OF s1] by (simp add: h i sheet_logging_def)
  then show "\<exists>self1. local_sheet_values self1 = local_sheet_values self \<and>
         cell_buffer self1 = cell_buffer self \<and>
         sheet_log self1 = sheet_log self @ [(WARNING, ''Column header not found in headers'')] \<and>
         update_cells overwrite r ((col, v) # others) n self
           = update_cells overwrite r others n self1" by blast
qed

text \<open>
  Claim C10. A pair whose conditions match no row is not always skipped.
  When a condition names a column that is not in the header row,
  \<^verbatim>\<open>self.headers.index\<close> raises ValueError inside the row search, where
  only StopIteration is caught: \<^verbatim>\<open>write_cells\<close> raises, nothing is staged
  or logged, and the following pair, which does match a row, is never
  processed. Whether it happens depends on the order of the conditions: when
  a condition on an existing column comes first and fails on every row,
  \<^verbatim>\<open>all\<close> stops before the absent column is looked up and the pair is
  skipped with a warning. The loop over the updates catches the same
  ValueError and skips only the column.
\<close>

theorem write_cells_absent_condition_column:
  "''grade'' \<notin> set (hd (local_sheet_values sheet_people)) \<and>
   fst (write_cells [[(''grade'', ''9'')], [(''id'', ''8'')]]
          [[(''status'', ''Y'')], [(''status'', ''Z'')]] False sheet_people) = Inl ValueError \<and>
   cell_buffer (snd (write_cells [[(''grade'', ''9'')], [(''id'', ''8'')]]
          [[(''status'', ''Y'')], [(''status'', ''Z'')]] False sheet_people)) = [] \<and>
   sheet_log (snd (write_cells [[(''grade'', ''9'')], [(''id'', ''8'')]]
          [[(''status'', ''Y'')], [(''status'', ''Z'')]] False sheet_people)) = [] \<and>
   fst (write_cells [[(''id'', ''9''), (''grade'', ''1'')], [(''id'', ''8'')]]
          [[(''status'', ''Y'')], [(''status'', ''Z'')]] False sheet_people) = Inr () \<and>
   cell_buffer (snd (write_cells [[(''id'', ''9''), (''grade'', ''1'')], [(''id'', ''8'')]]
          [[(''status'', ''Y'')], [(''status'', ''Z'')]] False sheet_people)) = [(2, 1, ''Z'')] \<and>
   sheet_log (snd (write_cells [[(''id'', ''9''), (''grade'', ''1'')], [(''id'', ''8'')]]
          [[(''status'', ''Y'')], [(''status'', ''Z'')]] False sheet_people))
     = [(WARNING, ''No matching row found for conditions''),
        (INFO, ''Updated %d cells in the sheet'')] \<and>
   fst (write_cells [[(''grade'', ''1''), (''id'', ''9'')], [(''id'', ''8'')]]
          [[(''status'', ''Y'')], [(''status'', ''Z'')]] False sheet_people) = Inl ValueError \<and>
   fst (write_cells [[(''id'', ''8'')]] [[(''grade'', ''9''), (''status'', ''Z'')]] False
          sheet_people) = Inr () \<and>
   cell_buffer (snd (write_cells [[(''id'', ''8'')]] [[(''grade'', ''9''), (''status'', ''Z'')]]
          False sheet_people)) = [(2, 1, ''Z'')] \<and>
   sheet_log (snd (write_cells [[(''id'', ''8'')]] [[(''grade'', ''9''), (''status'', ''Z'')]]
          False sheet_people))
     = [(WARNING, ''Column header not found in headers''),
        (INFO, ''Updated %d cells in the sheet'')]"
  by (simp add: write_cells_def sheet_people_def headers_def sheet_logging_def
      set_buffer_cells_def Let_def)

text \<open>
  The log and the staging buffer only grow, and reading \<^verbatim>\<open>headers\<close> in a
  state that differs by them gives the same header row.
\<close>

lemma sheet_logging_frame:
  "local_sheet_values (sheet_logging l m s) = local_sheet_values s"
  "cell_buffer (sheet_logging l m s) = cell_buffer s"
  "sheet_log (sheet_logging l m s) = sheet_log s @ [(l, m)]"
  "fst (headers (sheet_logging l m s)) = fst (headers s)"
  by (simp_all add: sheet_logging_def headers_def)

lemma set_buffer_cells_frame:
  "local_sheet_values (set_buffer_cells r c v s) = local_sheet_values s"
  "cell_buffer (set_buffer_cells r c v s) = cell_buffer s @ [(r, c, v)]"
  "sheet_log (set_buffer_cells r c v s) = sheet_log s"
  "fst (headers (set_buffer_cells r c v s)) = fst (headers s)"
  by (simp_all add: set_buffer_cells_def headers_def)

lemma update_cells_step:
  assumes "fst (headers s) = Some hs" and "list_index hs col = Some c"
    and "r < length (local_sheet_values s)" and "c < length (local_sheet_values s ! r)"
  shows "update_cells ov r ((col, v) # rest) n s =
     (if local_sheet_values s ! r ! c \<noteq> [] \<and> local_sheet_values s ! r ! c \<noteq> v \<and> \<not> ov
      then update_cells ov r rest n
             (sheet_logging WARNING ''Skipping non-empty cell'' (snd (headers s)))
      else update_cells ov r rest (n + 1)
             (set_buffer_cells r c v
                (if local_sheet_values s ! r ! c \<noteq> [] \<and> local_sheet_values s ! r ! c \<noteq> v \<and> ov
                 then sheet_logging INFO ''Overwriting cell'' (snd (headers s))
                 else snd (headers s))))"
proof -
  obtain s1 where h: "headers s = (Some hs, s1)" using assms(1) by (cases "headers s") auto
  have s1: "local_sheet_values s1 = local_sheet_values s"
    using headers_frame(1)[of s] h by simp
  show ?thesis using assms(2,3,4)
    by (simp add: h s1 Let_def)
qed

lemma update_cells_absent:
  assumes "fst (headers s) = Some hs" and "list_index hs col = None"
  shows "update_cells ov r ((col, v) # rest) n s =
     update_cells ov r rest n
       (sheet_logging WARNING ''Column header not found in headers'' (snd (headers s)))"
proof -
  obtain s1 where h: "headers s = (Some hs, s1)" using assms(1) by (cases "headers s") auto
  show ?thesis using assms(2) by (simp add: h)
qed

lemma headers_snd_fst: "fst (headers (snd (headers s))) = fst (headers s)"
  by (simp add: headers_memo)

lemma update_cells_outcomes:
  assumes "r < length rows"
  shows "fst (headers s) = Some hs \<Longrightarrow> local_sheet_values s = rows \<Longrightarrow>
     \<forall>c \<in> set (named_columns hs what_item). c < length (rows ! r) \<Longrightarrow>
     fst (update_cells ov r what_item n s)
       = Inr (n + length (staged_cells hs (rows ! r) r ov what_item)) \<and>
     cell_buffer (snd (update_cells ov r what_item n s))
       = cell_buffer s @ staged_cells hs (rows ! r) r ov what_item \<and>
     sheet_log (snd (update_cells ov r what_item n s))
       = sheet_log s @ update_records hs (rows ! r) r ov what_item \<and>
     local_sheet_values (snd (update_cells ov r what_item n s)) = rows"
proof (induction what_item arbitrary: n s)
  case Nil
  then show ?case by (simp add: staged_cells_def update_records_def)
next
  case (Cons kv rest)
  obtain col v where kv: "kv = (col, v)" by (cases kv) auto
  let ?s1 = "snd (headers s)"
  have s1: "fst (headers ?s1) = Some hs" "local_sheet_values ?s1 = rows"
    using Cons.prems(1,2) by (simp_all add: headers_snd_fst)
  have st: "staged_cells hs (rows ! r) r ov (kv # rest)
      = fst (update_outcome hs (rows ! r) r ov kv) @ staged_cells hs (rows ! r) r ov rest"
    "update_records hs (rows ! r) r ov (kv # rest)
      = snd (update_outcome hs (rows ! r) r ov kv) @ update_records hs (rows ! r) r ov rest"
    by (simp_all add: staged_cells_def update_records_def)
  show ?case
  proof (cases "list_index hs col")
    case None
    let ?s' = "sheet_logging WARNING ''Column header not found in headers'' ?s1"
    have step: "update_cells ov r (kv # rest) n s = update_cells ov r rest n ?s'"
      unfolding kv by (rule update_cells_absent[OF Cons.prems(1) None])
    have pre: "fst (headers ?s') = Some hs" "local_sheet_values ?s' = rows"
      using s1 by (simp_all add: sheet_logging_frame)
    have cols: "\<forall>c \<in> set (named_columns hs rest). c < length (rows ! r)"
      using Cons.prems(3) by (simp add: named_columns_def List.map_filter_simps kv None)
    have o: "update_outcome hs (rows ! r) r ov kv
        = ([], [(WARNING, ''Column header not found in headers'')])"
      by (simp add: update_outcome_def kv None)
    note ih = Cons.IH[OF pre cols, of n]
    show ?thesis unfolding step st o using ih
      by (simp add: sheet_logging_frame del: update_cells.simps)
  next
    case (Some c)
    have cols: "\<forall>c \<in> set (named_columns hs rest). c < length (rows ! r)"
      and c: "c < length (rows ! r)"
      using Cons.prems(3) by (simp_all add: named_columns_def List.map_filter_simps kv Some)
    have r: "r < length (local_sheet_values s)" "c < length (local_sheet_values s ! r)"
      using assms c Cons.prems(2) by simp_all
    note step = update_cells_step[OF Cons.prems(1) Some r, of ov v rest n]
    show ?thesis
    proof (cases "rows ! r ! c \<noteq> [] \<and> rows ! r ! c \<noteq> v \<and> \<not> ov")
      case True
      let ?s' = "sheet_logging WARNING ''Skipping non-empty cell'' ?s1"
      have step': "update_cells ov r (kv # rest) n s = update_cells ov r rest n ?s'"
        unfolding kv using step True Cons.prems(2) by simp
      have pre: "fst (headers ?s') = Some hs" "local_sheet_values ?s' = rows"
        using s1 by (simp_all add: sheet_logging_frame)
      have o: "update_outcome hs (rows ! r) r ov kv
          = ([], [(WARNING, ''Skipping non-empty cell'')])"
        using True by (simp add: update_outcome_def kv Some)
      note ih = Cons.IH[OF pre cols, of n]
      show ?thesis unfolding step' st o using ih
        by (simp add: sheet_logging_frame del: update_cells.simps)
    next
      case False
      let ?s2 = "if rows ! r ! c \<noteq> [] \<and> rows ! r ! c \<noteq> v \<and> ov
                 then sheet_logging INFO ''Overwriting cell'' ?s1 else ?s1"
      let ?s' = "set_buffer_cells r c v ?s2"
      have step': "update_cells ov r (kv # rest) n s = update_cells ov r rest (n + 1) ?s'"
        unfolding kv using step False Cons.prems(2) by simp
      have pre: "fst (headers ?s') = Some hs" "local_sheet_values ?s' = rows"
        using s1 by (simp_all add: sheet_logging_frame set_buffer_cells_frame)
      have o: "update_outcome hs (rows ! r) r ov kv
          = ([(r, c, v)], if rows ! r ! c \<noteq> [] \<and> rows ! r ! c \<noteq> v \<and> ov
                          then [(INFO, ''Overwriting cell'')] else [])"
        using False by (simp add: update_outcome_def kv Some)
      have fr: "cell_buffer ?s' = cell_buffer s @ [(r, c, v)]"
        "sheet_log ?s' = sheet_log s @ (if rows ! r ! c \<noteq> [] \<and> rows ! r ! c \<noteq> v \<and> ov
                          then [(INFO, ''Overwriting cell'')] else [])"
        by (simp_all add: sheet_logging_frame set_buffer_cells_frame)
      note ih = Cons.IH[OF pre cols, of "n + 1"]
      show ?thesis unfolding step' st o using ih fr
        by (simp del: update_cells.simps)
    qed
  qed
qed

text \<open>
  Claim C6. In a sheet with header row \<open>hs\<close>, for the targeted updates of
  \<^verbatim>\<open>write_cells\<close> on a located row \<open>r\<close>. Every update \<open>(col, v)\<close> whose
  column is at \<open>c\<close>, wherever it stands among the updates of its pair: when
  the cell is non-empty, differs from \<open>v\<close> and overwrite is not requested,
  the loop goes on with the remaining updates, the same update count and
  overwrite flag, nothing staged and the skip logged; when overwrite is
  requested, or the cell is empty, or the values are equal, \<open>v\<close> is staged
  for the cell \<open>(r, c)\<close> and the loop goes on with the count increased. For
  a whole list of updates whose columns lie inside the row, the cells staged
  and the records logged are those of the no-clobber policy, update by
  update in order, and the snapshot is left as it was. A pair whose row is
  located at \<open>r\<close> runs these updates on row \<open>r\<close> with the overwrite flag of
  the call, and \<^verbatim>\<open>write_cells\<close> on such a pair stages and logs exactly
  that.
\<close>

theorem write_cells_no_clobber:
  assumes "fst (headers self) = Some hs" and "r < length (local_sheet_values self)"
  shows "(list_index hs col = Some c \<and> c < length (local_sheet_values self ! r) \<longrightarrow>
      update_cells overwrite r ((col, v) # rest) n self =
        (if local_sheet_values self ! r ! c \<noteq> [] \<and> local_sheet_values self ! r ! c \<noteq> v \<and>
            \<not> overwrite
         then update_cells overwrite r rest n
                (sheet_logging WARNING ''Skipping non-empty cell'' (snd (headers self)))
         else update_cells overwrite r rest (n + 1)
                (set_buffer_cells r c v
                   (if local_sheet_values self ! r ! c \<noteq> [] \<and>
                       local_sheet_values self ! r ! c \<noteq> v \<and> overwrite
                    then sheet_logging INFO ''Overwriting cell'' (snd (headers self))
                    else snd (headers self))))) \<and>
   ((\<forall>c \<in> set (named_columns hs what_item). c < length (local_sheet_values self ! r)) \<longrightarrow>
      fst (update_cells overwrite r what_item n self)
        = Inr (n + length (staged_cells hs (local_sheet_values self ! r) r overwrite what_item)) \<and>
      cell_buffer (snd (update_cells overwrite r what_item n self))
        = cell_buffer self @ staged_cells hs (local_sheet_values self ! r) r overwrite what_item \<and>
      sheet_log (snd (update_cells overwrite r what_item n self))
        = sheet_log self @ update_records hs (local_sheet_values self ! r) r overwrite what_item \<and>
      local_sheet_values (snd (update_cells overwrite r what_item n self))
        = local_sheet_values self) \<and>
   (fst (find_row where_item (enumerate 0 (local_sheet_values self)) self) = Inr (Some r) \<longrightarrow>
      write_pairs overwrite ((where_item, what_item) # pairs) n self =
        (case update_cells overwrite r what_item n
                (snd (find_row where_item (enumerate 0 (local_sheet_values self)) self)) of
           (Inl e, self2) \<Rightarrow> (Inl e, self2)
         | (Inr m, self2) \<Rightarrow> write_pairs overwrite pairs m self2)) \<and>
   (fst (find_row where_item (enumerate 0 (local_sheet_values self)) self) = Inr (Some r) \<and>
    (\<forall>c \<in> set (named_columns hs what_item). c < length (local_sheet_values self ! r)) \<longrightarrow>
      fst (write_cells [where_item] [what_item] overwrite self) = Inr () \<and>
      cell_buffer (snd (write_cells [where_item] [what_item] overwrite self))
        = cell_buffer self @ staged_cells hs (local_sheet_values self ! r) r overwrite what_item \<and>
      sheet_log (snd (write_cells [where_item] [what_item] overwrite self))
        = sheet_log self @ update_records hs (local_sheet_values self ! r) r overwrite what_item
            @ [(INFO, ''Updated %d cells in the sheet'')] \<and>
      local_sheet_values (snd (write_cells [where_item] [what_item] overwrite self))
        = local_sheet_values self)"
proof (intro conjI impI)
  assume a: "list_index hs col = Some c \<and> c < length (local_sheet_values self ! r)"
  show "update_cells overwrite r ((col, v) # rest) n self =
        (if local_sheet_values self ! r ! c \<noteq> [] \<and> local_sheet_values self ! r ! c \<noteq> v \<and>
            \<not> overwrite
         then update_cells overwrite r rest n
                (sheet_logging WARNING ''Skipping non-empty cell'' (snd (headers self)))
         else update_cells overwrite r rest (n + 1)
                (set_buffer_cells r c v
                   (if local_sheet_values self ! r ! c \<noteq> [] \<and>
                       local_sheet_values self ! r ! c \<noteq> v \<and> overwrite
                    then sheet_logging INFO ''Overwriting cell'' (snd (headers self))
                    else snd (headers self))))"
    using a by (intro update_cells_step[OF assms(1) _ assms(2)]) simp_all
next
  assume a: "\<forall>c \<in> set (named_columns hs what_item). c < length (local_sheet_values self ! r)"
  note o = update_cells_outcomes[OF assms(2) assms(1) refl a, of overwrite n]
  show "fst (update_cells overwrite r what_item n self)
        = Inr (n + length (staged_cells hs (local_sheet_values self ! r) r overwrite what_item))"
    using o by blast
  show "cell_buffer (snd (update_cells overwrite r what_item n self))
        = cell_buffer self @ staged_cells hs (local_sheet_values self ! r) r overwrite what_item"
    using o by blast
  show "sheet_log (snd (update_cells overwrite r what_item n self))
        = sheet_log self @ update_records hs (local_sheet_values self ! r) r overwrite what_item"
    using o by blast
  show "local_sheet_values (snd (update_cells overwrite r what_item n self))
        = local_sheet_values self"
    using o by blast
next
  assume a: "fst (find_row where_item (enumerate 0 (local_sheet_values self)) self) = Inr (Some r)"
  obtain s1 where f: "find_row where_item (enumerate 0 (local_sheet_values self)) self
      = (Inr (Some r), s1)"
    using a by (cases "find_row where_item (enumerate 0 (local_sheet_values self)) self") auto
  show "write_pairs overwrite ((where_item, what_item) # pairs) n self =
        (case update_cells overwrite r what_item n
                (snd (find_row where_item (enumerate 0 (local_sheet_values self)) self)) of
           (Inl e, self2) \<Rightarrow> (Inl e, self2)
         | (Inr m, self2) \<Rightarrow> write_pairs overwrite pairs m self2)"
    by (simp add: f del: update_cells.simps find_row.simps)
next
  assume a: "fst (find_row where_item (enumerate 0 (local_sheet_values self)) self) = Inr (Some r) \<and>
    (\<forall>c \<in> set (named_columns hs what_item). c < length (local_sheet_values self ! r))"
  obtain s1 where f: "find_row where_item (enumerate 0 (local_sheet_values self)) self
      = (Inr (Some r), s1)"
    using a by (cases "find_row where_item (enumerate 0 (local_sheet_values self)) self") auto
  have "memo_of self (snd (find_row where_item (enumerate 0 (local_sheet_values self)) self))"
    by (rule find_row_memo[OF memo_of_refl])
  then have m: "memo_of self s1" using f by simp
  have h1: "fst (headers s1) = Some hs" using memo_of_headers(1)[OF m] assms(1) by simp
  note fr = memo_of_frame[OF m]
  have cols: "\<forall>c \<in> set (named_columns hs what_item). c < length (local_sheet_values self ! r)"
    using a by blast
  note o = update_cells_outcomes[OF assms(2) h1 fr(1) cols, of overwrite 0]
  obtain k s2 where u: "update_cells overwrite r what_item 0 s1 = (Inr k, s2)"
    using o by (cases "update_cells overwrite r what_item 0 s1") auto
  have s2: "cell_buffer s2
        = cell_buffer self @ staged_cells hs (local_sheet_values self ! r) r overwrite what_item"
    "sheet_log s2
        = sheet_log self @ update_records hs (local_sheet_values self ! r) r overwrite what_item"
    "local_sheet_values s2 = local_sheet_values self"
    using o u fr by simp_all
  have w: "write_cells [where_item] [what_item] overwrite self
      = (Inr (), sheet_logging INFO ''Updated %d cells in the sheet'' s2)"
    by (simp add: write_cells_def f u del: update_cells.simps find_row.simps)
  show "fst (write_cells [where_item] [what_item] overwrite self) = Inr ()"
    unfolding w by simp
  show "cell_buffer (snd (write_cells [where_item] [what_item] overwrite self))
        = cell_buffer self @ staged_cells hs (local_sheet_values self ! r) r overwrite what_item"
    unfolding w using s2 by (simp add: sheet_logging_frame)
  show "sheet_log (snd (write_cells [where_item] [what_item] overwrite self))
        = sheet_log self @ update_records hs (local_sheet_values self ! r) r overwrite what_item
            @ [(INFO, ''Updated %d cells in the sheet'')]"
    unfolding w using s2 by (simp add: sheet_logging_frame)
  show "local_sheet_values (snd (write_cells [where_item] [what_item] overwrite self))
        = local_sheet_values self"
    unfolding w using s2 by (simp add: sheet_logging_frame)
qed

theorem write_cells_no_clobber_witness:
  "fst (headers sheet_people) = Some [''id'', ''status''] \<and>
   1 < length (local_sheet_values sheet_people) \<and>
   list_index [''id'', ''status''] ''status'' = Some 1 \<and>
   local_sheet_values sheet_people ! 1 = [''7'', ''X''] \<and>
   named_columns [''id'', ''status''] [(''status'', ''Y''), (''id'', ''7''), (''score'', ''1'')]
     = [1, 0] \<and>
   fst (find_row [(''id'', ''7'')] (enumerate 0 (local_sheet_values sheet_people)) sheet_people)
     = Inr (Some 1) \<and>
   update_cells False 1 [(''status'', ''Y''), (''id'', ''7'')] 0 sheet_people
     = update_cells False 1 [(''id'', ''7'')] 0
         (sheet_logging WARNING ''Skipping non-empty cell'' (snd (headers sheet_people))) \<and>
   update_cells True 1 [(''status'', ''Y''), (''id'', ''7'')] 0 sheet_people
     = update_cells True 1 [(''id'', ''7'')] 1
         (set_buffer_cells 1 1 ''Y''
            (sheet_logging INFO ''Overwriting cell'' (snd (headers sheet_people)))) \<and>
   update_cells False 1 [(''status'', ''X''), (''id'', ''7'')] 0 sheet_people
     = update_cells False 1 [(''id'', ''7'')] 1
         (set_buffer_cells 1 1 ''X'' (snd (headers sheet_people))) \<and>
   staged_cells [''id'', ''status''] [''7'', ''X''] 1 False
       [(''status'', ''Y''), (''id'', ''7''), (''score'', ''1'')] = [(1, 0, ''7'')] \<and>
   staged_cells [''id'', ''status''] [''7'', ''X''] 1 True
       [(''status'', ''Y''), (''id'', ''7''), (''score'', ''1'')] = [(1, 1, ''Y''), (1, 0, ''7'')] \<and>
   fst (update_cells False 1 [(''status'', ''Y''), (''id'', ''7''), (''score'', ''1'')] 0
          sheet_people) = Inr 1 \<and>
   cell_buffer (snd (update_cells False 1 [(''status'', ''Y''), (''id'', ''7''), (''score'', ''1'')]
                       0 sheet_people)) = [(1, 0, ''7'')] \<and>
   cell_buffer (snd (write_cells [[(''id'', ''7'')]]
                       [[(''status'', ''Y''), (''id'', ''7''), (''score'', ''1'')]] False
                       sheet_people)) = [(1, 0, ''7'')] \<and>
   sheet_log (snd (write_cells [[(''id'', ''7'')]]
                     [[(''status'', ''Y''), (''id'', ''7''), (''score'', ''1'')]] False
                     sheet_people))
     = [(WARNING, ''Skipping non-empty cell''), (WARNING, ''Column header not found in headers''),
        (INFO, ''Updated %d cells in the sheet'')] \<and>
   cell_buffer (snd (write_cells [[(''id'', ''7'')]]
                       [[(''status'', ''Y''), (''id'', ''7''), (''score'', ''1'')]] True
                       sheet_people)) = [(1, 1, ''Y''), (1, 0, ''7'')] \<and>
   sheet_log (snd (write_cells [[(''id'', ''7'')]]
                     [[(''status'', ''Y''), (''id'', ''7''), (''score'', ''1'')]] True
                     sheet_people))
     = [(INFO, ''Overwriting cell''), (WARNING, ''Column header not found in headers''),
        (INFO, ''Updated %d cells in the sheet'')] \<and>
   cell_buffer (snd (write_cells [[(''id'', ''7'')]] [[(''status'', ''X'')]] False sheet_people))
     = [(1, 1, ''X'')]"
proof -
  let ?hs = "[''id'', ''status'']"
  let ?what = "[(''status'', ''Y''), (''id'', ''7''), (''score'', ''1'')]"
  have h1: "fst (headers sheet_people) = Some ?hs"
    by (simp add: sheet_people_def headers_def)
  have h2: "1 < length (local_sheet_values sheet_people)" by (simp add: sheet_people_def)
  have h3: "list_index ?hs ''status'' = Some 1" by simp
  have row: "local_sheet_values sheet_people ! 1 = [''7'', ''X'']" by (simp add: sheet_people_def)
  have nc: "named_columns ?hs ?what = [1, 0]" "named_columns ?hs [(''status'', ''X'')] = [1]"
    by (simp_all add: named_columns_def List.map_filter_simps)
  have f: "fst (find_row [(''id'', ''7'')] (enumerate 0 (local_sheet_values sheet_people))
              sheet_people) = Inr (Some 1)"
    by (simp add: sheet_people_def headers_def)
  have st: "staged_cells ?hs [''7'', ''X''] 1 False ?what = [(1, 0, ''7'')]"
    "staged_cells ?hs [''7'', ''X''] 1 True ?what = [(1, 1, ''Y''), (1, 0, ''7'')]"
    "staged_cells ?hs [''7'', ''X''] 1 False [(''status'', ''X'')] = [(1, 1, ''X'')]"
    "update_records ?hs [''7'', ''X''] 1 False ?what
       = [(WARNING, ''Skipping non-empty cell''), (WARNING, ''Column header not found in headers'')]"
    "update_records ?hs [''7'', ''X''] 1 True ?what
       = [(INFO, ''Overwriting cell''), (WARNING, ''Column header not found in headers'')]"
    by (simp_all add: staged_cells_def update_records_def update_outcome_def)
  have v: "cell_buffer sheet_people = []" "sheet_log sheet_people = []"
    by (simp_all add: sheet_people_def)
  note t = write_cells_no_clobber[OF h1 h2, where col="''status''" and c=1
      and where_item="[(''id'', ''7'')]" and n=0 and pairs="[]"]
  from t[where v="''Y''" and overwrite=False and rest="[(''id'', ''7'')]" and what_item="?what"]
    t[where v="''Y''" and overwrite=True and rest="[(''id'', ''7'')]" and what_item="?what"]
    t[where v="''X''" and overwrite=False and rest="[(''id'', ''7'')]"
        and what_item="[(''status'', ''X'')]"]
    h1 h2 h3 row nc f st v
  show ?thesis
    by (simp del: update_cells.simps write_pairs.simps find_row.simps)
qed

section \<open>Properties of paginated retrieval\<close>

lemma requests_logging [simp]: "requests (logging l m w) = requests w"
  by (simp add: logging_def)

lemma files_logging [simp]: "files (logging l m w) = files w"
  by (simp add: logging_def)

lemma take_drop_next: "take P (drop off xs) @ drop (off + P) xs = drop off xs"
proof -
  have "take P (drop off xs) @ drop P (drop off xs) = drop off xs"
    by (rule append_take_drop_id)
  then show ?thesis by (simp add: add.commute)
qed

lemma page_offsets_step:
  "(invitation, P, off) # map (\<lambda>j. (invitation, P, off + P + j * P)) [0 ..< Suc m]
   = map (\<lambda>j. (invitation, P, off + j * P)) [0 ..< Suc (Suc m)]"
proof -
  have "map (\<lambda>j. (invitation, P, off + j * P)) [0 ..< Suc (Suc m)]
        = (invitation, P, off + 0 * P) # map (\<lambda>j. (invitation, P, off + Suc j * P)) [0 ..< Suc m]"
    by (rule map_upt_Suc)
  then show ?thesis by (simp add: add.assoc)
qed

lemma fetch_pages_stub:
  assumes "\<forall>off. page_error c off = None" and "0 < P"
  shows "off \<le> length (invitation_notes c invitation) \<Longrightarrow>
     fst (fetch_pages c invitation P off acc w) = Inr (acc @ drop off (invitation_notes c invitation)) \<and>
     requests (snd (fetch_pages c invitation P off acc w))
       = requests w @ map (\<lambda>j. (invitation, P, off + j * P))
                        [0 ..< Suc ((length (invitation_notes c invitation) - off) div P)]"
proof (induction "length (invitation_notes c invitation) - off" arbitrary: off acc w rule: less_induct)
  case less
  let ?notes = "invitation_notes c invitation"
  let ?N = "length ?notes"
  let ?batch = "take P (drop off ?notes)"
  let ?w1 = "w\<lparr>requests := requests w @ [(invitation, P, off)]\<rparr>"
  have page: "get_notes_page c invitation P off w = (Inr ?batch, ?w1)"
    using assms(1) by (simp add: get_notes_page_def)
  consider (empty) "off = ?N" | (short) "off < ?N" "?N - off < P" | (full) "P \<le> ?N - off"
    using less.prems by linarith
  then show ?case
  proof cases
    case empty
    then have b: "?batch = []" by simp
    have "fetch_pages c invitation P off acc w = (Inr acc, ?w1)"
      by (subst fetch_pages.simps) (simp add: page b del: fetch_pages.simps)
    then show ?thesis using empty by simp
  next
    case short
    then have b: "?batch = drop off ?notes" "?batch \<noteq> []" "length ?batch < P" by simp_all
    have "fetch_pages c invitation P off acc w
          = (Inr (acc @ ?batch), logging INFO ''Retrieved %d submissions (total: %d)'' ?w1)"
      using b(2,3) short by (subst fetch_pages.simps) (simp add: page del: fetch_pages.simps)
    then show ?thesis using short b(1) by simp
  next
    case full
    then have b: "?batch \<noteq> []" "\<not> length ?batch < P" using assms(2) by auto
    let ?w2 = "logging INFO ''Retrieved %d submissions (total: %d)'' ?w1"
    have step: "fetch_pages c invitation P off acc w = fetch_pages c invitation P (off + P) (acc @ ?batch) ?w2"
      using b by (subst fetch_pages.simps) (simp add: page del: fetch_pages.simps)
    have smaller: "?N - (off + P) < ?N - off" using full assms(2) by simp
    have inside: "off + P \<le> ?N" using full less.prems by simp
    note ih = less.hyps[OF smaller inside, of "acc @ ?batch" ?w2]
    have d: "(?N - off) div P = Suc ((?N - (off + P)) div P)"
      using full assms(2) by (simp add: le_div_geq)
    show ?thesis
      unfolding step d using ih page_offsets_step[of invitation P off "(?N - (off + P)) div P"]
      by (simp add: take_drop_next del: fetch_pages.simps upt_Suc)
  qed
qed

lemma fetch_pages_author_stub:
  assumes "\<forall>off. page_error c off = None" and "0 < P"
  shows "off \<le> length (invitation_notes c invitation) \<Longrightarrow>
     fst (fetch_pages_author c invitation P off acc w) = acc @ drop off (invitation_notes c invitation) \<and>
     requests (snd (fetch_pages_author c invitation P off acc w))
       = requests w @ map (\<lambda>j. (invitation, P, off + j * P))
                        [0 ..< Suc ((length (invitation_notes c invitation) - off) div P)]"
proof (induction "length (invitation_notes c invitation) - off" arbitrary: off acc w rule: less_induct)
  case less
  let ?notes = "invitation_notes c invitation"
  let ?N = "length ?notes"
  let ?batch = "take P (drop off ?notes)"
  let ?w1 = "w\<lparr>requests := requests w @ [(invitation, P, off)]\<rparr>"
  have page: "get_notes_page c invitation P off w = (Inr ?batch, ?w1)"
    using assms(1) by (simp add: get_notes_page_def)
  consider (empty) "off = ?N" | (short) "off < ?N" "?N - off < P" | (full) "P \<le> ?N - off"
    using less.prems by linarith
  then show ?case
  proof cases
    case empty
    then have b: "?batch = []" by simp
    have "fetch_pages_author c invitation P off acc w = (acc, ?w1)"
      by (subst fetch_pages_author.simps) (simp add: page b del: fetch_pages_author.simps)
    then show ?thesis using empty by simp
  next
    case short
    then have b: "?batch = drop off ?notes" "?batch \<noteq> []" "length ?batch < P" by simp_all
    have "fetch_pages_author c invitation P off acc w
          = (acc @ ?batch, logging INFO ''Retrieved %d submissions (total: %d)'' ?w1)"
      using b(2,3) short
      by (subst fetch_pages_author.simps) (simp add: page del: fetch_pages_author.simps)
    then show ?thesis using short b(1) by simp
  next
    case full
    then have b: "?batch \<noteq> []" "\<not> length ?batch < P" using assms(2) by auto
    let ?w2 = "logging INFO ''Retrieved %d submissions (total: %d)'' ?w1"
    have step: "fetch_pages_author c invitation P off acc w
                = fetch_pages_author c invitation P (off + P) (acc @ ?batch) ?w2"
      using b by (subst fetch_pages_author.simps) (simp add: page del: fetch_pages_author.simps)
    have smaller: "?N - (off + P) < ?N - off" using full assms(2) by simp
    have inside: "off + P \<le> ?N" using full less.prems by simp
    note ih = less.hyps[OF smaller inside, of "acc @ ?batch" ?w2]
    have d: "(?N - off) div P = Suc ((?N - (off + P)) div P)"
      using full assms(2) by (simp add: le_div_geq)
    show ?thesis
      unfolding step d using ih page_offsets_step[of invitation P off "(?N - (off + P)) div P"]
      by (simp add: take_drop_next del: fetch_pages_author.simps upt_Suc)
  qed
qed

lemma ceiling_div_nat:
  assumes "0 < P"
  shows "\<lceil>real N / real P\<rceil> = int (N div P) + (if P dvd N then 0 else 1)"
proof (cases "P dvd N")
  case True
  then obtain q where "N = P * q" by (auto simp: dvd_def)
  then show ?thesis using assms by simp
next
  case False
  then have r: "0 < N mod P" by (simp add: dvd_eq_mod_eq_0)
  have N: "N = N div P * P + N mod P" by simp
  have lo: "real (N div P) < real N / real P"
  proof -
    have "N div P * P < N" using r N by linarith
    then have "real (N div P) * real P < real N" by (metis of_nat_less_iff of_nat_mult)
    then show ?thesis using assms by (simp add: pos_less_divide_eq)
  qed
  have hi: "real N / real P \<le> real (N div P) + 1"
  proof -
    have "N mod P < P" using assms by simp
    then have "N \<le> (N div P + 1) * P" using N by (metis add.commute less_imp_le_nat mult.commute mult_Suc_right nat_add_left_cancel_le Suc_eq_plus1)
    then have "real N \<le> (real (N div P) + 1) * real P"
      by (metis of_nat_le_iff of_nat_mult of_nat_add of_nat_1)
    then show ?thesis using assms by (simp add: pos_divide_le_eq)
  qed
  have "\<lceil>real N / real P\<rceil> = int (N div P) + 1"
    by (rule ceiling_unique) (use lo hi in simp_all)
  then show ?thesis using False by simp
qed

text \<open>
  Claim C3, as the code has it. Against a stub source holding \<open>N\<close> records
  and serving pages of size \<open>P > 0\<close> without failures, both pagination loops
  terminate, return exactly the \<open>N\<close> records in their original order, and
  make \<open>N div P + 1\<close> page requests, at the offsets \<open>0, P, 2P, ...\<close>: that is
  \<open>\<lceil>N / P\<rceil>\<close> requests when \<open>P\<close> does not divide \<open>N\<close>, and one more (a
  final request answered by an empty page) when it does. With caching
  disabled, \<^verbatim>\<open>get_all_submissions\<close> returns the records after
  \<open>N div 1000 + 1\<close> requests.
\<close>

theorem pagination_stub:
  assumes "\<forall>off. page_error c off = None" and "0 < P"
  shows "fst (fetch_pages c invitation P 0 [] w) = Inr (invitation_notes c invitation) \<and>
     fst (fetch_pages_author c invitation P 0 [] w) = invitation_notes c invitation \<and>
     requests (snd (fetch_pages c invitation P 0 [] w))
       = requests w @ map (\<lambda>j. (invitation, P, j * P))
                        [0 ..< Suc (length (invitation_notes c invitation) div P)] \<and>
     requests (snd (fetch_pages_author c invitation P 0 [] w))
       = requests w @ map (\<lambda>j. (invitation, P, j * P))
                        [0 ..< Suc (length (invitation_notes c invitation) div P)] \<and>
     int (Suc (length (invitation_notes c invitation) div P))
       = \<lceil>real (length (invitation_notes c invitation)) / real P\<rceil>
         + (if P dvd length (invitation_notes c invitation) then 1 else 0) \<and>
     (\<not> use_cache self \<longrightarrow>
        fst (get_all_submissions self lib c w)
          = Inr (invitation_notes c (conference_id self @ ''/-/Submission'')) \<and>
        length (requests (snd (get_all_submissions self lib c w)))
          = length (requests w)
            + Suc (length (invitation_notes c (conference_id self @ ''/-/Submission'')) div 1000))"
proof -
  note a = fetch_pages_stub[OF assms, of 0 invitation "[]" w]
  note b = fetch_pages_author_stub[OF assms, of 0 invitation "[]" w]
  have c1: "int (Suc (length (invitation_notes c invitation) div P))
       = \<lceil>real (length (invitation_notes c invitation)) / real P\<rceil>
         + (if P dvd length (invitation_notes c invitation) then 1 else 0)"
    using ceiling_div_nat[OF assms(2), of "length (invitation_notes c invitation)"] by simp
  have g: "\<not> use_cache self \<longrightarrow>
        fst (get_all_submissions self lib c w)
          = Inr (invitation_notes c (conference_id self @ ''/-/Submission'')) \<and>
        length (requests (snd (get_all_submissions self lib c w)))
          = length (requests w)
            + Suc (length (invitation_notes c (conference_id self @ ''/-/Submission'')) div 1000)"
  proof
    assume nc: "\<not> use_cache self"
    let ?inv = "conference_id self @ ''/-/Submission''"
    let ?w1 = "logging INFO ''Retrieving all submissions for %s'' w"
    obtain res w2 where f: "fetch_pages c ?inv 1000 0 [] ?w1 = (res, w2)"
      by (cases "fetch_pages c ?inv 1000 0 [] ?w1") auto
    have k: "(0::nat) < 1000" by simp
    note s = fetch_pages_stub[OF assms(1) k, of 0 ?inv "[]" ?w1]
    have res: "res = Inr (invitation_notes c ?inv)" and
      rq: "requests w2 = requests w @ map (\<lambda>j. (?inv, 1000, j * 1000))
                        [0 ..< Suc (length (invitation_notes c ?inv) div 1000)]"
      using s f by simp_all
    show "fst (get_all_submissions self lib c w) = Inr (invitation_notes c ?inv) \<and>
        length (requests (snd (get_all_submissions self lib c w)))
          = length (requests w) + Suc (length (invitation_notes c ?inv) div 1000)"
      using nc rq
      by (simp add: get_all_submissions_def load_cache_def save_cache_def f res
          del: fetch_pages.simps upt_Suc)
  qed
  show ?thesis using a b c1 g by simp
qed

theorem pagination_stub_witness:
  "(\<forall>off. page_error (stub_client [paper 1, paper 2, paper 3]) off = None) \<and> (0::nat) < 2 \<and>
   fst (fetch_pages (stub_client [paper 1, paper 2, paper 3]) ''inv'' 2 0 [] quiet_world)
     = Inr [paper 1, paper 2, paper 3] \<and>
   fst (fetch_pages_author (stub_client [paper 1, paper 2, paper 3]) ''inv'' 2 0 [] quiet_world)
     = [paper 1, paper 2, paper 3] \<and>
   requests (snd (fetch_pages (stub_client [paper 1, paper 2, paper 3]) ''inv'' 2 0 [] quiet_world))
     = [(''inv'', 2, 0), (''inv'', 2, 2)] \<and>
   requests (snd (fetch_pages_author (stub_client [paper 1, paper 2, paper 3]) ''inv'' 2 0 []
                    quiet_world))
     = [(''inv'', 2, 0), (''inv'', 2, 2)] \<and>
   \<lceil>real (length [paper 1, paper 2, paper 3]) / real 2\<rceil> = 2 \<and>
   \<not> use_cache no_cache \<and>
   fst (get_all_submissions no_cache text_lib_subs (stub_client [paper 1, paper 2, paper 3])
          quiet_world) = Inr [paper 1, paper 2, paper 3] \<and>
   length (requests (snd (get_all_submissions no_cache text_lib_subs
                            (stub_client [paper 1, paper 2, paper 3]) quiet_world))) = 1"
proof -
  have h: "\<forall>off. page_error (stub_client [paper 1, paper 2, paper 3]) off = None"
    by (simp add: stub_client_def)
  have k: "(0::nat) < 2" by simp
  have n: "invitation_notes (stub_client [paper 1, paper 2, paper 3]) i
           = [paper 1, paper 2, paper 3]" for i by (simp add: stub_client_def)
  have q: "requests quiet_world = []" by (simp add: quiet_world_def)
  have nc: "\<not> use_cache no_cache" by (simp add: no_cache_def)
  from pagination_stub[OF h k, of "''inv''" quiet_world no_cache text_lib_subs] h nc
  show ?thesis unfolding n by (simp add: q del: fetch_pages.simps fetch_pages_author.simps)
qed

text \<open>
  Two records served in pages of two take two requests, not \<open>\<lceil>2 / 2\<rceil> = 1\<close>:
  the first page is full, so the loop asks again and stops at the empty page.
  An empty source takes one request, not zero.
\<close>

theorem pagination_stub_counterexample:
  "fst (fetch_pages (stub_client [paper 1, paper 2]) ''inv'' 2 0 [] quiet_world)
     = Inr [paper 1, paper 2] \<and>
   requests (snd (fetch_pages (stub_client [paper 1, paper 2]) ''inv'' 2 0 [] quiet_world))
     = [(''inv'', 2, 0), (''inv'', 2, 2)] \<and>
   \<lceil>real (length [paper 1, paper 2]) / real 2\<rceil> = 1 \<and>
   requests (snd (fetch_pages (stub_client []) ''inv'' 1000 0 [] quiet_world))
     = [(''inv'', 1000, 0)] \<and>
   \<lceil>real (length ([] :: submission list)) / real 1000\<rceil> = 0"
proof -
  have h: "\<forall>off. page_error (stub_client ns) off = None" for ns
    by (simp add: stub_client_def)
  have n: "invitation_notes (stub_client ns) ''inv'' = ns" for ns
    by (simp add: stub_client_def)
  have q: "requests quiet_world = []" by (simp add: quiet_world_def)
  have k: "(0::nat) < 2" "(0::nat) < 1000" by simp_all
  from fetch_pages_stub[OF h k(1), of 0 "[paper 1, paper 2]" "''inv''" "[]" quiet_world]
    fetch_pages_stub[OF h k(2), of 0 "[]" "''inv''" "[]" quiet_world]
  show ?thesis unfolding n by (simp add: q del: fetch_pages.simps)
qed

section \<open>Properties of score extraction\<close>

lemma save_cache_result: "save_cache self lib k v w = (r, w') \<Longrightarrow> r = Inr ()"
  using save_cache_returns[of self lib k v w] by simp

lemma extract_loop_averages:
  assumes st: "score_type = ''initial'' \<or> score_type = ''final''"
  shows "fst (extract_loop self c info score_type exclude_withdrawn submissions avg_scores w)
    = Inr (avg_scores @
           concat (map (\<lambda>p. contributed
                          (filtered_scores self c info score_type exclude_withdrawn p))
                     submissions))"
proof (induction submissions arbitrary: avg_scores w)
  case Nil
  then show ?case by simp
next
  case (Cons p rest)
  define reviews where
    "reviews = filter (\<lambda>n. (conference_id self @ ''/Submission'' @ str_int (number p) @
                             ''/-/Official_Review'') \<in> set (invitations n))
                (forum_notes c (forum p))"
  define wd where
    "wd = (exclude_withdrawn \<and>
           sublist ''Withdrawn'' (case venue p of None \<Rightarrow> [] | Some v \<Rightarrow> v))"
  have loop: "extract_loop self c info score_type exclude_withdrawn (p # rest) avg_scores w =
      (if wd then
         extract_loop self c info score_type exclude_withdrawn rest avg_scores
           (logging DEBUG ''Skipping withdrawn paper %d'' w)
       else if reviews = [] then
         extract_loop self c info score_type exclude_withdrawn rest avg_scores
           (logging DEBUG ''Paper %d has no reviews'' w)
       else
         (case paper_scores info score_type reviews of
            Inl e \<Rightarrow> (Inl e, w)
          | Inr None \<Rightarrow>
              extract_loop self c info score_type exclude_withdrawn rest avg_scores
                (logging WARNING
                   (if score_type = ''initial'' then ''RATING_EXTRACTOR not defined for %s''
                    else ''FINAL_RATING_EXTRACTOR not defined for %s'') w)
          | Inr (Some scores) \<Rightarrow>
              if scores = [] then
                extract_loop self c info score_type exclude_withdrawn rest avg_scores
                  (logging DEBUG ''Paper %d has no valid scores'' w)
              else
                (case py_div (sum_list scores) (real (length scores)) of
                   Inl e \<Rightarrow> (Inl e, w)
                 | Inr avg_score \<Rightarrow>
                     extract_loop self c info score_type exclude_withdrawn rest
                       (avg_scores @ [avg_score]) w)))"
    unfolding wd_def reviews_def by (simp add: Let_def)
  have fs: "filtered_scores self c info score_type exclude_withdrawn p =
      (if wd then None
       else if reviews = [] then None
       else (case paper_scores info score_type reviews of
               Inr (Some scores) \<Rightarrow> Some scores
             | _ \<Rightarrow> None))"
    unfolding wd_def reviews_def by (simp add: filtered_scores_def Let_def)
  have "\<exists>ps. paper_scores info score_type reviews = Inr ps"
    using st
    by (cases "RATING_EXTRACTOR info"; cases "FINAL_RATING_EXTRACTOR info")
      (auto simp: paper_scores_def)
  then obtain ps where ps: "paper_scores info score_type reviews = Inr ps" by blast
  show ?case
    unfolding loop ps
    by (cases ps) (auto simp: Cons.IH fs ps contributed_def py_div_def)
qed

lemma extract_loop_result:
  assumes "score_type = ''initial'' \<or> score_type = ''final''"
    and "extract_loop self c info score_type exclude_withdrawn submissions avg_scores w = (r, w')"
  shows "r = Inr (avg_scores @
           concat (map (\<lambda>p. contributed
                          (filtered_scores self c info score_type exclude_withdrawn p))
                     submissions))"
  using extract_loop_averages[OF assms(1), of self c info exclude_withdrawn submissions avg_scores w]
    assms(2) by simp

text \<open>
  Claim C2. For a valid score type, the averages \<^verbatim>\<open>extract_average_scores\<close>
  computes are, in the order of the submissions, one value per paper whose
  filtered (non-None) score list is non-empty, namely the sum of the list
  divided by its length; a paper whose filtered list is empty contributes no
  value, and the division never raises.
\<close>

theorem average_scores:
  assumes "score_type = ''initial'' \<or> score_type = ''final''"
  shows "fst (extract_loop self c info score_type exclude_withdrawn submissions [] w)
       = Inr (concat (map (\<lambda>p. contributed
                             (filtered_scores self c info score_type exclude_withdrawn p))
                        submissions)) \<and>
     (\<not> use_cache self \<longrightarrow>
        fst (extract_average_scores self lib c info submissions score_type exclude_withdrawn w)
          = Inr (concat (map (\<lambda>p. contributed
                               (filtered_scores self c info score_type exclude_withdrawn p))
                          submissions))) \<and>
     (xs \<noteq> [] \<longrightarrow> contributed (Some xs) = [sum_list xs / real (length xs)]) \<and>
     contributed (Some []) = [] \<and> contributed None = []"
proof -
  have a: "fst (extract_loop self c info score_type exclude_withdrawn submissions [] w)
       = Inr (concat (map (\<lambda>p. contributed
                             (filtered_scores self c info score_type exclude_withdrawn p))
                        submissions))"
    using extract_loop_averages[OF assms, of self c info exclude_withdrawn submissions "[]" w]
    by simp
  have b: "\<not> use_cache self \<longrightarrow>
        fst (extract_average_scores self lib c info submissions score_type exclude_withdrawn w)
          = Inr (concat (map (\<lambda>p. contributed
                               (filtered_scores self c info score_type exclude_withdrawn p))
                          submissions))"
    by (auto simp add: extract_average_scores_def Let_def load_cache_def
        split: prod.splits sum.splits option.splits
        dest!: extract_loop_result[OF assms] save_cache_result)
  have c: "(xs \<noteq> [] \<longrightarrow> contributed (Some xs) = [sum_list xs / real (length xs)]) \<and>
     contributed (Some []) = [] \<and> contributed None = []"
    by (simp add: contributed_def)
  show ?thesis using a b c by blast
qed

theorem average_scores_witness:
  "\<not> use_cache no_cache \<and>
   filtered_scores no_cache review_client rating_info ''initial'' False (paper 7) = Some [3, 6] \<and>
   filtered_scores no_cache review_client rating_info ''initial'' False (paper 8) = Some [] \<and>
   contributed (Some [3, 6]) = [(3 + 6) / 2] \<and>
   fst (extract_loop no_cache review_client rating_info ''initial'' False [paper 7, paper 8] []
          quiet_world) = Inr [9 / 2] \<and>
   fst (extract_average_scores no_cache text_lib_scores review_client rating_info
          [paper 7, paper 8] ''initial'' False quiet_world) = Inr [9 / 2]"
proof -
  have s: "str_int 7 = ''7''" "str_int 8 = ''8''" by code_simp+
  have st: "''initial'' = ''initial'' \<or> ''initial'' = ''final''" by simp
  have nc: "\<not> use_cache no_cache" by (simp add: no_cache_def)
  have f7: "filtered_scores no_cache review_client rating_info ''initial'' False (paper 7)
            = Some [3, 6]"
    by (simp add: filtered_scores_def paper_def s review_client_def rating_info_def caching_def
        no_cache_def paper_scores_def List.map_filter_simps decimal_int_def Let_def)
  have f8: "filtered_scores no_cache review_client rating_info ''initial'' False (paper 8)
            = Some []"
    by (simp add: filtered_scores_def paper_def s review_client_def rating_info_def caching_def
        no_cache_def paper_scores_def List.map_filter_simps decimal_int_def Let_def)
  from average_scores[OF st, of no_cache review_client rating_info False "[paper 7, paper 8]"
      quiet_world text_lib_scores "[3, 6]"] nc f7 f8
  show ?thesis by (simp add: contributed_def)
qed

section \<open>Properties of the area-chair checks\<close>

lemma files_load_cache: "files (snd (load_cache self lib k w)) = files w"
  by (simp add: load_cache_def Let_def logging_def split: sum.splits)

text \<open>
  Claim C9, as the code has it. When the conference's Area\_Chairs group has no
  members or the user's profile id is not among them,
  \<^verbatim>\<open>get_ac_assigned_submissions\<close> writes no file, and it returns the empty
  list unless the cache already holds an entry for the user, which is
  returned before the group is consulted.
\<close>

theorem ac_checks_precede_cache:
  assumes "group_members c (conference_id self @ ''/Area_Chairs'') = [] \<or>
           profile_id c \<notin> set (group_members c (conference_id self @ ''/Area_Chairs''))"
  shows "files (snd (get_ac_assigned_submissions self lib c w)) = files w \<and>
     (fst (load_cache self lib (''ac_submissions_'' @ conference_id self @ ''_'' @ profile_id c) w)
        = Inr None \<longrightarrow>
      fst (get_ac_assigned_submissions self lib c w) = Inr [])"
proof -
  let ?k = "''ac_submissions_'' @ conference_id self @ ''_'' @ profile_id c"
  obtain r w1 where l: "load_cache self lib ?k w = (r, w1)"
    by (cases "load_cache self lib ?k w") auto
  have f: "files w1 = files w" using files_load_cache[of self lib ?k w] l by simp
  obtain v where r: "r = Inr v" using load_cache_returns[of self lib ?k w] l by auto
  show ?thesis
  proof (cases v)
    case None
    show ?thesis
      unfolding get_ac_assigned_submissions_def Let_def l r None
      using assms f by auto
  next
    case (Some d)
    show ?thesis
      unfolding get_ac_assigned_submissions_def Let_def l r Some
      using f by simp
  qed
qed

theorem ac_checks_precede_cache_witness:
  "group_members (stub_client []) (conference_id caching @ ''/Area_Chairs'') = [] \<and>
   fst (load_cache caching text_lib_subs
          (''ac_submissions_'' @ conference_id caching @ ''_'' @ profile_id (stub_client []))
          quiet_world) = Inr None \<and>
   files (snd (get_ac_assigned_submissions caching text_lib_subs (stub_client []) quiet_world))
     = files quiet_world \<and>
   fst (get_ac_assigned_submissions caching text_lib_subs (stub_client []) quiet_world) = Inr []"
proof -
  have h: "group_members (stub_client []) (conference_id caching @ ''/Area_Chairs'') = [] \<or>
           profile_id (stub_client []) \<notin>
             set (group_members (stub_client []) (conference_id caching @ ''/Area_Chairs''))"
    by (simp add: stub_client_def)
  have m: "fst (load_cache caching text_lib_subs
          (''ac_submissions_'' @ conference_id caching @ ''_'' @ profile_id (stub_client []))
          quiet_world) = Inr None"
    by (simp add: load_cache_def caching_def quiet_world_def)
  from ac_checks_precede_cache[OF h, of text_lib_subs quiet_world] m
  show ?thesis by (simp add: stub_client_def)
qed

text \<open>
  With an entry for the user in the cache, the cached list is returned although
  the group has no members.
\<close>

theorem ac_checks_precede_cache_counterexample:
  "group_members (stub_client []) (conference_id caching @ ''/Area_Chairs'') = [] \<and>
   fst (get_ac_assigned_submissions caching text_lib_subs (stub_client []) cached_world)
     = Inr [paper 7] \<and>
   fst (get_ac_assigned_submissions caching text_lib_subs (stub_client []) cached_world) \<noteq> Inr []"
  by (simp add: get_ac_assigned_submissions_def load_cache_def read_pickle_def open_rb_def
      caching_def cached_world_def quiet_world_def text_lib_subs_def stub_client_def logging_def
      Let_def)

section \<open>Properties of area-chair assignment resolution\<close>

lemma split_on_nonempty: "split_on sep s \<noteq> []"
  by (induction s) (auto split: list.splits)

lemma hd_split_on_slash:
  "hd (split_on ''/'' s) = takeWhile (\<lambda>ch. ch \<noteq> CHR ''/'') s"
proof (induction s)
  case Nil
  then show ?case by simp
next
  case (Cons c cs)
  obtain p ps where s: "split_on ''/'' cs = p # ps"
    using split_on_nonempty[of "''/''" cs] by (cases "split_on ''/'' cs") auto
  show ?case using Cons.IH by (auto simp: s)
qed

lemma takeWhile_hd_split_on:
  assumes "sep = CHR ''/'' # r"
  shows "takeWhile (\<lambda>ch. ch \<noteq> CHR ''/'') (hd (split_on sep t))
         = takeWhile (\<lambda>ch. ch \<noteq> CHR ''/'') t"
proof (induction t)
  case Nil
  then show ?case by simp
next
  case (Cons c cs)
  obtain p ps where s: "split_on sep cs = p # ps"
    using split_on_nonempty[of sep cs] by (cases "split_on sep cs") auto
  show ?case
  proof (cases "prefix sep (c # cs)")
    case True
    then have "c = CHR ''/''" using assms by simp
    then show ?thesis using True assms by simp
  next
    case False
    then show ?thesis using Cons.IH by (simp add: s)
  qed
qed

lemma split_on_after_first:
  assumes "sep \<noteq> []"
  shows "after_first sep g = Some t \<Longrightarrow> \<exists>p. split_on sep g = p # split_on sep t"
proof (induction g)
  case Nil
  then show ?case by simp
next
  case (Cons c cs)
  show ?case
  proof (cases "prefix sep (c # cs)")
    case True
    have "drop (length sep) (c # cs) = drop (length sep - 1) cs"
      using assms by (cases sep) simp_all
    then show ?thesis using True Cons.prems assms by auto
  next
    case False
    then have "after_first sep cs = Some t" using Cons.prems by simp
    from Cons.IH[OF this] obtain p where "split_on sep cs = p # split_on sep t" by blast
    then show ?thesis using False by simp
  qed
qed

lemma after_first_None:
  assumes "sep \<noteq> []"
  shows "after_first sep g = None \<longleftrightarrow> \<not> sublist sep g"
  using assms by (induction g) (auto simp: sublist_Cons_right)

lemma paper_num_str:
  assumes "sublist ''/Submission'' g"
  shows "1 < length (split_on ''/Submission'' g)"
    and "hd (split_on ''/'' (split_on ''/Submission'' g ! 1)) = paper_segment g"
proof -
  obtain t where t: "after_first ''/Submission'' g = Some t"
    using assms after_first_None[of "''/Submission''" g]
    by (cases "after_first ''/Submission'' g") auto
  obtain p where p: "split_on ''/Submission'' g = p # split_on ''/Submission'' t"
    using split_on_after_first[OF _ t] by auto
  obtain q qs where q: "split_on ''/Submission'' t = q # qs"
    using split_on_nonempty[of "''/Submission''" t]
    by (cases "split_on ''/Submission'' t") auto
  show "1 < length (split_on ''/Submission'' g)" unfolding p q by simp
  have "split_on ''/Submission'' g ! 1 = hd (split_on ''/Submission'' t)"
    unfolding p q by simp
  then have "hd (split_on ''/'' (split_on ''/Submission'' g ! 1))
             = takeWhile (\<lambda>ch. ch \<noteq> CHR ''/'') (hd (split_on ''/Submission'' t))"
    by (simp only: hd_split_on_slash)
  also have "\<dots> = takeWhile (\<lambda>ch. ch \<noteq> CHR ''/'') t"
    by (rule takeWhile_hd_split_on) simp
  finally show "hd (split_on ''/'' (split_on ''/Submission'' g ! 1)) = paper_segment g"
    by (simp add: paper_segment_def t)
qed

lemma specific_has_area_chair: "sublist ''/Area_Chair_'' g \<Longrightarrow> sublist ''Area_Chair'' g"
proof -
  assume "sublist ''/Area_Chair_'' g"
  then obtain ps ss where "g = ps @ ''/Area_Chair_'' @ ss" by (auto simp: sublist_def)
  then have "g = (ps @ ''/'') @ ''Area_Chair'' @ (''_'' @ ss)" by simp
  then show ?thesis by (metis sublist_appendI)
qed

lemma pool_has_area_chair: "suffix ''/Area_Chairs'' g \<Longrightarrow> sublist ''Area_Chair'' g"
proof -
  assume "suffix ''/Area_Chairs'' g"
  then obtain ps where "g = ps @ ''/Area_Chairs''" by (auto simp: suffix_def)
  then have "g = (ps @ ''/'') @ ''Area_Chair'' @ ''s''" by simp
  then show ?thesis by (metis sublist_appendI)
qed

lemma classify_specific_some:
  assumes "specific_group conf g" and "int_of_str lib (paper_segment g) = Some n"
  shows "classify_groups lib conf (g # rest) (N, S, Pl)
         = classify_groups lib conf rest (insert n N, S @ [g], Pl)"
proof -
  have s: "sublist conf g" "sublist ''/Submission'' g" "sublist ''/Area_Chair_'' g"
    using assms(1) by (simp_all add: specific_group_def)
  note pn = paper_num_str[OF s(2)]
  show ?thesis
    unfolding classify_groups.simps Let_def pn(2) assms(2)
    using s pn(1) by simp
qed

lemma classify_specific_none:
  assumes "specific_group conf g" and "int_of_str lib (paper_segment g) = None"
  shows "classify_groups lib conf (g # rest) (N, S, Pl)
         = classify_groups lib conf rest (N, S @ [g], Pl)"
proof -
  have s: "sublist conf g" "sublist ''/Submission'' g" "sublist ''/Area_Chair_'' g"
    using assms(1) by (simp_all add: specific_group_def)
  note pn = paper_num_str[OF s(2)]
  show ?thesis
    unfolding classify_groups.simps Let_def pn(2) assms(2)
    using s pn(1) by simp
qed

lemma classify_pool:
  assumes "pool_group conf g"
  shows "classify_groups lib conf (g # rest) (N, S, Pl)
         = classify_groups lib conf rest (N, S, Pl @ [g])"
  using assms unfolding classify_groups.simps pool_group_def specific_group_def by auto

lemma classify_other:
  assumes "\<not> specific_group conf g" and "\<not> pool_group conf g"
  shows "classify_groups lib conf (g # rest) (N, S, Pl)
         = classify_groups lib conf rest (N, S, Pl)"
  using assms unfolding classify_groups.simps pool_group_def specific_group_def by auto

lemma classify_groups_acc:
  "classify_groups lib conf gs (N, S, Pl) =
     (N \<union> assigned_numbers lib conf gs,
      S @ filter (specific_group conf) gs,
      Pl @ filter (pool_group conf) gs)"
proof (induction gs arbitrary: N S Pl)
  case Nil
  then show ?case by (simp add: assigned_numbers_def List.map_filter_simps)
next
  case (Cons g gs)
  have np: "specific_group conf g \<Longrightarrow> \<not> pool_group conf g" by (simp add: pool_group_def)
  show ?case
  proof (cases "specific_group conf g")
    case True
    show ?thesis
    proof (cases "int_of_str lib (paper_segment g)")
      case None
      show ?thesis
        unfolding classify_specific_none[OF True None] Cons.IH
        using True None np by (simp add: assigned_numbers_def List.map_filter_simps)
    next
      case (Some n)
      show ?thesis
        unfolding classify_specific_some[OF True Some] Cons.IH
        using True Some np by (simp add: assigned_numbers_def List.map_filter_simps)
    qed
  next
    case False
    show ?thesis
    proof (cases "pool_group conf g")
      case True
      show ?thesis
        unfolding classify_pool[OF True] Cons.IH
        using True False by (simp add: assigned_numbers_def)
    next
      case nopool: False
      show ?thesis
        unfolding classify_other[OF False nopool] Cons.IH
        using False nopool by (simp add: assigned_numbers_def)
    qed
  qed
qed

lemma set_map_filter_conv: "set (List.map_filter f xs) = {y. \<exists>x \<in> set xs. f x = Some y}"
  by (induction xs) (auto simp: List.map_filter_simps split: option.splits)

lemma filter_area_chair:
  "filter (specific_group conf) (filter (\<lambda>g. sublist ''Area_Chair'' g) gs)
     = filter (specific_group conf) gs"
  "filter (pool_group conf) (filter (\<lambda>g. sublist ''Area_Chair'' g) gs)
     = filter (pool_group conf) gs"
  "assigned_numbers lib conf (filter (\<lambda>g. sublist ''Area_Chair'' g) gs)
     = assigned_numbers lib conf gs"
proof -
  have a: "specific_group conf g \<Longrightarrow> sublist ''Area_Chair'' g" for g
    by (simp add: specific_group_def specific_has_area_chair)
  have b: "pool_group conf g \<Longrightarrow> sublist ''Area_Chair'' g" for g
    by (simp add: pool_group_def pool_has_area_chair)
  show 1: "filter (specific_group conf) (filter (\<lambda>g. sublist ''Area_Chair'' g) gs)
     = filter (specific_group conf) gs"
    using a by (induction gs) auto
  show "filter (pool_group conf) (filter (\<lambda>g. sublist ''Area_Chair'' g) gs)
     = filter (pool_group conf) gs"
    using b by (induction gs) auto
  show "assigned_numbers lib conf (filter (\<lambda>g. sublist ''Area_Chair'' g) gs)
     = assigned_numbers lib conf gs"
    unfolding assigned_numbers_def 1 by (rule refl)
qed

text \<open>
  With caching disabled and no failing request, \<^verbatim>\<open>get_all_submissions\<close>
  returns the notes posted under the submission invitation; when no request
  by number fails, the loop of the specific strategy returns the notes of
  the given numbers, number by number.
\<close>

lemma get_all_submissions_uncached:
  assumes "\<not> use_cache self" and "\<forall>off. page_error c off = None"
  shows "fst (get_all_submissions self lib c w)
     = Inr (invitation_notes c (conference_id self @ ''/-/Submission''))"
proof -
  let ?inv = "conference_id self @ ''/-/Submission''"
  let ?w1 = "logging INFO ''Retrieving all submissions for %s'' w"
  obtain res w2 where f: "fetch_pages c ?inv 1000 0 [] ?w1 = (res, w2)"
    by (cases "fetch_pages c ?inv 1000 0 [] ?w1") auto
  have k: "(0::nat) < 1000" by simp
  note s = fetch_pages_stub[OF assms(2) k, of 0 ?inv "[]" ?w1]
  have res: "res = Inr (invitation_notes c ?inv)" using s f by simp
  show ?thesis
    using assms(1)
    by (simp add: get_all_submissions_def load_cache_def save_cache_def f res
        del: fetch_pages.simps)
qed

lemma fetch_assigned_all:
  assumes "\<forall>n. number_error c n = None"
  shows "fst (fetch_assigned c invitation ns acc w)
     = Inr (acc @ concat (map (\<lambda>n. filter (\<lambda>s. number s = n) (invitation_notes c invitation)) ns))"
proof (induction ns arbitrary: acc w)
  case Nil
  then show ?case by simp
next
  case (Cons n ns)
  have g: "get_notes_number c invitation n
      = Inr (filter (\<lambda>s. number s = n) (invitation_notes c invitation))"
    using assms by (simp add: get_notes_number_def)
  show ?case by (simp add: g Cons.IH)
qed

lemma pool_filter_conv:
  "(\<exists>ac_group \<in> set (filter (pool_group conf) gs). ac_group \<in> set rs)
     = (\<exists>g \<in> set gs. pool_group conf g \<and> g \<in> set rs)"
  by auto

text \<open>
  Claim C4. A group is a specific-assignment group when its id contains the
  conference id, \<^verbatim>\<open>'/Submission'\<close> and \<^verbatim>\<open>'/Area_Chair_'\<close>. If the user is in
  at least one such group, the specific-assignment strategy runs on exactly
  the integers parsed from the segment between the first \<^verbatim>\<open>'/Submission'\<close>
  and the next \<^verbatim>\<open>'/'\<close> of those groups, and, when no request fails, returns
  the submissions with those numbers in increasing order of number.
  Otherwise the pool-membership fallback runs: it returns the submissions
  that \<^verbatim>\<open>get_all_submissions\<close> returns (with caching disabled and no
  failing request, the notes posted under the submission invitation) whose
  reader list holds both the paper's own \<^verbatim>\<open>.../Submission{number}/Area_Chairs\<close>
  group and one of the user's pool groups, in their order.
  \<^verbatim>\<open>get_ac_assigned_submissions\<close> returns what this resolution returns
  whenever it gets past the cache and the membership checks.
\<close>

theorem ac_assignment_resolution:
  "resolve_assignments self lib c w =
     (if \<exists>g \<in> set (member_groups c (profile_id c)). specific_group (conference_id self) g
      then specific_assignment self c
             (assigned_numbers lib (conference_id self) (member_groups c (profile_id c)))
             (logging INFO ''Found %d AC groups for user''
                (logging INFO ''Getting groups for user %s'' w))
      else pool_fallback self lib c
             (filter (pool_group (conference_id self)) (member_groups c (profile_id c)))
             (logging INFO ''Found %d AC groups for user''
                (logging INFO ''Getting groups for user %s'' w))) \<and>
   (n \<in> assigned_numbers lib (conference_id self) (member_groups c (profile_id c)) \<longleftrightarrow>
      (\<exists>g \<in> set (member_groups c (profile_id c)).
         specific_group (conference_id self) g \<and> int_of_str lib (paper_segment g) = Some n)) \<and>
   ((\<exists>g \<in> set (member_groups c (profile_id c)). specific_group (conference_id self) g) \<and>
    (\<forall>k. number_error c k = None) \<longrightarrow>
      fst (resolve_assignments self lib c w)
        = Inr (concat (map (\<lambda>k. filter (\<lambda>s. number s = k)
                                   (invitation_notes c (conference_id self @ ''/-/Submission'')))
                 (sorted_list_of_set
                    (assigned_numbers lib (conference_id self)
                       (member_groups c (profile_id c))))))) \<and>
   (\<not> (\<exists>g \<in> set (member_groups c (profile_id c)). specific_group (conference_id self) g) \<longrightarrow>
      fst (resolve_assignments self lib c w)
        = (case fst (get_all_submissions self lib c
                       (logging INFO ''Using paper.readers method (legacy)''
                          (logging INFO ''Found %d AC groups for user''
                             (logging INFO ''Getting groups for user %s'' w)))) of
             Inl e \<Rightarrow> Inl e
           | Inr all_submissions \<Rightarrow>
               Inr (filter
                      (\<lambda>paper.
                         (conference_id self @ ''/Submission'' @ str_int (number paper) @
                            ''/Area_Chairs'') \<in> set (readers paper) \<and>
                         (\<exists>g \<in> set (member_groups c (profile_id c)).
                            pool_group (conference_id self) g \<and> g \<in> set (readers paper)))
                      all_submissions))) \<and>
   (\<not> (\<exists>g \<in> set (member_groups c (profile_id c)). specific_group (conference_id self) g) \<and>
    \<not> use_cache self \<and> (\<forall>off. page_error c off = None) \<longrightarrow>
      fst (resolve_assignments self lib c w)
        = Inr (filter
                 (\<lambda>paper.
                    (conference_id self @ ''/Submission'' @ str_int (number paper) @
                       ''/Area_Chairs'') \<in> set (readers paper) \<and>
                    (\<exists>g \<in> set (member_groups c (profile_id c)).
                       pool_group (conference_id self) g \<and> g \<in> set (readers paper)))
                 (invitation_notes c (conference_id self @ ''/-/Submission'')))) \<and>
   (fst (load_cache self lib (''ac_submissions_'' @ conference_id self @ ''_'' @ profile_id c) w0)
      = Inr None \<and>
    group_members c (conference_id self @ ''/Area_Chairs'') \<noteq> [] \<and>
    profile_id c \<in> set (group_members c (conference_id self @ ''/Area_Chairs'')) \<longrightarrow>
      fst (get_ac_assigned_submissions self lib c w0)
        = fst (resolve_assignments self lib c
                 (logging INFO ''Retrieving AC-assigned submissions''
                    (snd (load_cache self lib
                            (''ac_submissions_'' @ conference_id self @ ''_'' @ profile_id c)
                            w0)))))"
proof -
  let ?gs = "member_groups c (profile_id c)"
  let ?ac = "filter (\<lambda>g. sublist ''Area_Chair'' g) ?gs"
  let ?w2 = "logging INFO ''Found %d AC groups for user''
                (logging INFO ''Getting groups for user %s'' w)"
  let ?P = "\<lambda>paper. (conference_id self @ ''/Submission'' @ str_int (number paper) @
                            ''/Area_Chairs'') \<in> set (readers paper) \<and>
                         (\<exists>g \<in> set ?gs. pool_group (conference_id self) g \<and> g \<in> set (readers paper))"
  have cl: "classify_groups lib (conference_id self) ?ac ({}, [], [])
        = (assigned_numbers lib (conference_id self) ?gs,
           filter (specific_group (conference_id self)) ?gs,
           filter (pool_group (conference_id self)) ?gs)"
    unfolding classify_groups_acc filter_area_chair by simp
  have ex: "(0 < length (filter (specific_group (conference_id self)) ?gs))
            = (\<exists>g \<in> set ?gs. specific_group (conference_id self) g)"
    by (auto simp: filter_empty_conv)
  have r: "resolve_assignments self lib c w =
     (if \<exists>g \<in> set ?gs. specific_group (conference_id self) g
      then specific_assignment self c (assigned_numbers lib (conference_id self) ?gs) ?w2
      else pool_fallback self lib c (filter (pool_group (conference_id self)) ?gs) ?w2)"
    unfolding resolve_assignments_def Let_def cl prod.case ex by (rule refl)
  have m: "n \<in> assigned_numbers lib (conference_id self) ?gs \<longleftrightarrow>
      (\<exists>g \<in> set ?gs. specific_group (conference_id self) g \<and>
                     int_of_str lib (paper_segment g) = Some n)"
    by (auto simp: assigned_numbers_def set_map_filter_conv)
  have sp: "(\<exists>g \<in> set ?gs. specific_group (conference_id self) g) \<and>
    (\<forall>k. number_error c k = None) \<longrightarrow>
      fst (resolve_assignments self lib c w)
        = Inr (concat (map (\<lambda>k. filter (\<lambda>s. number s = k)
                                   (invitation_notes c (conference_id self @ ''/-/Submission'')))
                 (sorted_list_of_set (assigned_numbers lib (conference_id self) ?gs))))"
  proof
    assume a: "(\<exists>g \<in> set ?gs. specific_group (conference_id self) g) \<and>
      (\<forall>k. number_error c k = None)"
    then have ne: "\<forall>k. number_error c k = None" by blast
    let ?w3 = "logging INFO ''Found %d specific AC assignment groups'' ?w2"
    let ?ns = "sorted_list_of_set (assigned_numbers lib (conference_id self) ?gs)"
    let ?inv = "conference_id self @ ''/-/Submission''"
    obtain res w4 where f: "fetch_assigned c ?inv ?ns [] ?w3 = (res, w4)"
      by (cases "fetch_assigned c ?inv ?ns [] ?w3") auto
    have res: "res = Inr (concat (map (\<lambda>k. filter (\<lambda>s. number s = k) (invitation_notes c ?inv)) ?ns))"
      using fetch_assigned_all[OF ne, of ?inv ?ns "[]" ?w3] f by simp
    have "fst (specific_assignment self c (assigned_numbers lib (conference_id self) ?gs) ?w2)
        = Inr (concat (map (\<lambda>k. filter (\<lambda>s. number s = k) (invitation_notes c ?inv)) ?ns))"
      unfolding specific_assignment_def f res by simp
    then show "fst (resolve_assignments self lib c w)
        = Inr (concat (map (\<lambda>k. filter (\<lambda>s. number s = k) (invitation_notes c ?inv)) ?ns))"
      unfolding r using a by simp
  qed
  let ?w3 = "logging INFO ''Using paper.readers method (legacy)'' ?w2"
  have pf: "fst (pool_fallback self lib c (filter (pool_group (conference_id self)) ?gs) ?w2)
      = (case fst (get_all_submissions self lib c ?w3) of
           Inl e \<Rightarrow> Inl e
         | Inr all_submissions \<Rightarrow> Inr (filter ?P all_submissions))"
  proof -
    obtain res w4 where g: "get_all_submissions self lib c ?w3 = (res, w4)"
      by (cases "get_all_submissions self lib c ?w3") auto
    show ?thesis
      unfolding pool_fallback_def g pool_filter_conv by (cases res) simp_all
  qed
  have fb: "\<not> (\<exists>g \<in> set ?gs. specific_group (conference_id self) g) \<longrightarrow>
      fst (resolve_assignments self lib c w)
        = (case fst (get_all_submissions self lib c ?w3) of
             Inl e \<Rightarrow> Inl e
           | Inr all_submissions \<Rightarrow> Inr (filter ?P all_submissions))"
    unfolding r using pf by simp
  have fb2: "\<not> (\<exists>g \<in> set ?gs. specific_group (conference_id self) g) \<and>
    \<not> use_cache self \<and> (\<forall>off. page_error c off = None) \<longrightarrow>
      fst (resolve_assignments self lib c w)
        = Inr (filter ?P (invitation_notes c (conference_id self @ ''/-/Submission'')))"
  proof
    assume a: "\<not> (\<exists>g \<in> set ?gs. specific_group (conference_id self) g) \<and>
      \<not> use_cache self \<and> (\<forall>off. page_error c off = None)"
    then have nc: "\<not> use_cache self" and pe: "\<forall>off. page_error c off = None" by blast+
    note g = get_all_submissions_uncached[OF nc pe, of lib ?w3]
    show "fst (resolve_assignments self lib c w)
        = Inr (filter ?P (invitation_notes c (conference_id self @ ''/-/Submission'')))"
      using fb a unfolding g by simp
  qed
  let ?k = "''ac_submissions_'' @ conference_id self @ ''_'' @ profile_id c"
  let ?members = "group_members c (conference_id self @ ''/Area_Chairs'')"
  have e: "fst (load_cache self lib ?k w0) = Inr None \<and> ?members \<noteq> [] \<and>
           profile_id c \<in> set ?members \<longrightarrow>
      fst (get_ac_assigned_submissions self lib c w0)
        = fst (resolve_assignments self lib c
                 (logging INFO ''Retrieving AC-assigned submissions''
                    (snd (load_cache self lib ?k w0))))"
  proof
    assume a: "fst (load_cache self lib ?k w0) = Inr None \<and> ?members \<noteq> [] \<and>
           profile_id c \<in> set ?members"
    obtain w1 where l: "load_cache self lib ?k w0 = (Inr None, w1)"
      using a by (cases "load_cache self lib ?k w0") auto
    obtain res w3 where rs: "resolve_assignments self lib c
        (logging INFO ''Retrieving AC-assigned submissions'' w1) = (res, w3)"
      by (cases "resolve_assignments self lib c
        (logging INFO ''Retrieving AC-assigned submissions'' w1)") auto
    show "fst (get_ac_assigned_submissions self lib c w0)
        = fst (resolve_assignments self lib c
                 (logging INFO ''Retrieving AC-assigned submissions''
                    (snd (load_cache self lib ?k w0))))"
      unfolding get_ac_assigned_submissions_def Let_def l
      using a rs by (auto split: sum.splits prod.splits dest: save_cache_result)
  qed
  show ?thesis
    apply (intro conjI)
         apply (rule r)
        apply (rule m)
       apply (rule sp)
      apply (rule fb)
     apply (rule fb2)
    apply (rule e)
    done
qed

theorem ac_assignment_resolution_witness:
  "specific_group ''Conf'' ''Conf/Submission7/Area_Chair_abc'' \<and>
   paper_segment ''Conf/Submission7/Area_Chair_abc'' = ''7'' \<and>
   assigned_numbers text_lib_subs ''Conf'' [''Conf/Submission7/Area_Chair_abc''] = {7} \<and>
   resolve_assignments caching text_lib_subs (ac_client [''Conf/Submission7/Area_Chair_abc''])
       quiet_world
     = specific_assignment caching (ac_client [''Conf/Submission7/Area_Chair_abc'']) {7}
         (logging INFO ''Found %d AC groups for user''
            (logging INFO ''Getting groups for user %s'' quiet_world)) \<and>
   number_error (ac_client [''Conf/Submission7/Area_Chair_abc'']) 7 = None \<and>
   fst (resolve_assignments caching text_lib_subs (ac_client [''Conf/Submission7/Area_Chair_abc''])
          quiet_world) = Inr [paper 7] \<and>
   \<not> specific_group ''Conf'' ''Conf/Submission7/Area_Chairs'' \<and>
   pool_group ''Conf'' ''Conf/Submission7/Area_Chairs'' \<and>
   resolve_assignments caching text_lib_subs (ac_client [''Conf/Submission7/Area_Chairs''])
       quiet_world
     = pool_fallback caching text_lib_subs (ac_client [''Conf/Submission7/Area_Chairs''])
         [''Conf/Submission7/Area_Chairs'']
         (logging INFO ''Found %d AC groups for user''
            (logging INFO ''Getting groups for user %s'' quiet_world)) \<and>
   member_groups reader_client (profile_id reader_client) = [''Conf/Submission7/Area_Chairs''] \<and>
   \<not> use_cache no_cache \<and>
   page_error reader_client 0 = None \<and>
   invitation_notes reader_client ''Conf/-/Submission''
     = [read_by 7 [''Conf/Submission7/Area_Chairs''],
        read_by 8 [''Conf/Submission8/Area_Chairs''],
        read_by 9 [''Conf/Submission7/Area_Chairs'']] \<and>
   fst (resolve_assignments no_cache text_lib_subs reader_client quiet_world)
     = Inr [read_by 7 [''Conf/Submission7/Area_Chairs'']] \<and>
   fst (get_ac_assigned_submissions no_cache text_lib_subs reader_client quiet_world)
     = Inr [read_by 7 [''Conf/Submission7/Area_Chairs'']] \<and>
   fst (load_cache caching text_lib_subs
          (''ac_submissions_'' @ conference_id caching @ ''_'' @
             profile_id (ac_client [''Conf/Submission7/Area_Chair_abc''])) quiet_world)
     = Inr None \<and>
   group_members (ac_client [''Conf/Submission7/Area_Chair_abc''])
       (conference_id caching @ ''/Area_Chairs'') = [''~User1''] \<and>
   profile_id (ac_client [''Conf/Submission7/Area_Chair_abc'']) = ''~User1'' \<and>
   fst (get_ac_assigned_submissions caching text_lib_subs
          (ac_client [''Conf/Submission7/Area_Chair_abc'']) quiet_world) = Inr [paper 7]"
proof -
  let ?c = "ac_client [''Conf/Submission7/Area_Chair_abc'']"
  let ?p7 = "read_by 7 [''Conf/Submission7/Area_Chairs'']"
  let ?p8 = "read_by 8 [''Conf/Submission8/Area_Chairs'']"
  let ?p9 = "read_by 9 [''Conf/Submission7/Area_Chairs'']"
  have s1: "specific_group ''Conf'' ''Conf/Submission7/Area_Chair_abc''"
    unfolding specific_group_def by code_simp
  have s2: "\<not> specific_group ''Conf'' ''Conf/Submission7/Area_Chairs''"
    unfolding specific_group_def by code_simp
  have s3: "pool_group ''Conf'' ''Conf/Submission7/Area_Chairs''"
    unfolding pool_group_def specific_group_def by code_simp
  have seg: "paper_segment ''Conf/Submission7/Area_Chair_abc'' = ''7''"
    unfolding paper_segment_def by code_simp
  have d7: "decimal_int ''7'' = Some 7" by code_simp
  have an: "assigned_numbers text_lib_subs ''Conf'' [''Conf/Submission7/Area_Chair_abc''] = {7}"
    by (simp add: assigned_numbers_def s1 seg d7 text_lib_subs_def List.map_filter_simps)
  have g: "member_groups (ac_client gs) u = gs" "conference_id caching = ''Conf''"
    "conference_id no_cache = ''Conf''" "\<not> use_cache no_cache" for gs u
    by (simp_all add: ac_client_def caching_def no_cache_def)
  have ne: "number_error (ac_client gs) k = None" "page_error reader_client off = None"
    for gs k off
    by (simp_all add: ac_client_def stub_client_def reader_client_def)
  have run: "fst (specific_assignment caching ?c {7} w) = Inr [paper 7]" for w
    by (simp add: specific_assignment_def get_notes_number_def ac_client_def stub_client_def
        paper_def caching_def)
  have miss: "load_cache caching text_lib_subs k quiet_world = (Inr None, quiet_world)"
    "load_cache no_cache text_lib_subs k w = (Inr None, w)" for k w
    by (simp_all add: load_cache_def caching_def no_cache_def quiet_world_def)
  have mem: "group_members (ac_client gs) a = [''~User1'']" "profile_id (ac_client gs) = ''~User1''"
    "group_members reader_client a = [''~User1'']" "profile_id reader_client = ''~User1''"
    "member_groups reader_client u = [''Conf/Submission7/Area_Chairs'']"
    "invitation_notes reader_client i = [?p7, ?p8, ?p9]"
    for gs a u i
    by (simp_all add: ac_client_def stub_client_def reader_client_def)
  have str: "str_int 7 = ''7''" "str_int 8 = ''8''" "str_int 9 = ''9''" by code_simp+
  have rd: "number (read_by k rs) = k" "readers (read_by k rs) = rs" for k rs
    by (simp_all add: read_by_def paper_def)
  have keep: "filter
         (\<lambda>paper. (''Conf'' @ ''/Submission'' @ str_int (number paper) @ ''/Area_Chairs'')
                     \<in> set (readers paper) \<and>
                   (\<exists>g \<in> set [''Conf/Submission7/Area_Chairs''].
                      pool_group ''Conf'' g \<and> g \<in> set (readers paper)))
         [?p7, ?p8, ?p9] = [?p7]"
    by (simp add: rd str s3)
  have pool: "fst (resolve_assignments no_cache text_lib_subs reader_client w) = Inr [?p7]" for w
  proof -
    note t = ac_assignment_resolution[of no_cache text_lib_subs reader_client w 7 quiet_world]
    have hyp: "\<not> (\<exists>g \<in> set (member_groups reader_client (profile_id reader_client)).
                   specific_group (conference_id no_cache) g) \<and>
               \<not> use_cache no_cache \<and> (\<forall>off. page_error reader_client off = None)"
      by (simp add: mem g s2 ne)
    note u = mp[OF t[THEN conjunct2, THEN conjunct2, THEN conjunct2, THEN conjunct2,
                     THEN conjunct1] hyp]
    show ?thesis using u unfolding g mem keep .
  qed
  have poolfull: "fst (get_ac_assigned_submissions no_cache text_lib_subs reader_client quiet_world)
      = Inr [?p7]"
    using ac_assignment_resolution[of no_cache text_lib_subs reader_client quiet_world 7 quiet_world]
    by (simp add: miss mem pool)
  have inner: "fst (resolve_assignments caching text_lib_subs ?c
                 (logging INFO ''Retrieving AC-assigned submissions'' quiet_world))
               = Inr [paper 7]"
    using ac_assignment_resolution[of caching text_lib_subs ?c
        "logging INFO ''Retrieving AC-assigned submissions'' quiet_world" 7 quiet_world]
    by (simp add: g s1 an run)
  have full: "fst (get_ac_assigned_submissions caching text_lib_subs ?c quiet_world)
              = Inr [paper 7]"
    using ac_assignment_resolution[of caching text_lib_subs ?c quiet_world 7 quiet_world]
    by (simp add: g miss mem inner)
  from ac_assignment_resolution[of caching text_lib_subs ?c quiet_world 7 quiet_world]
    ac_assignment_resolution[of caching text_lib_subs
      "ac_client [''Conf/Submission7/Area_Chairs'']" quiet_world 7 quiet_world]
  show ?thesis by (simp add: g s1 s2 s3 seg an run miss mem full ne pool poolfull)
qed

end
